theory Spec2Isabelle
  imports Main "HOL-Library.Word"
begin

section \<open>JavaScript values\<close>

text \<open>
  The server (\<^verbatim>\<open>src/server.js\<close>) handles weakly typed data: request bodies, the responses of
  the model service and the payload of the media search are whatever JSON arrives. They
  are embedded as one datatype of JSON-like values. A JavaScript string is a list of
  characters, one \<^typ>\<open>char\<close> per code unit; numbers are the integers (the program only
  passes them on, prints them and tests them for zero). The property list of \<open>JObj\<close> is the
  object's own properties in enumeration order, each key once.
\<close>

datatype jsval =
    JUndefined
  | JNull
  | JBool bool
  | JNum int
  | JStr string
  | JArr "jsval list"
  | JObj "(string \<times> jsval) list"

text \<open>
  A thrown value. \<open>Error m\<close> is an error object whose \<^verbatim>\<open>message\<close> is \<open>m\<close> (made by
  \<^verbatim>\<open>new Error(m)\<close> or raised by an external service); \<open>TypeError\<close> is what the runtime
  throws on a property read of \<^verbatim>\<open>null\<close>/\<^verbatim>\<open>undefined\<close> or on a call of something that is
  not a function (its message depends on the engine).
\<close>

datatype exn = Error string | TypeError

fun nullish :: "jsval \<Rightarrow> bool" where
  "nullish JUndefined = True"
| "nullish JNull = True"
| "nullish _ = False"

text \<open>Truthiness, as tested by \<^verbatim>\<open>!x\<close>, \<^verbatim>\<open>x || y\<close> and \<^verbatim>\<open>c ? a : b\<close>.\<close>

fun truthy :: "jsval \<Rightarrow> bool" where
  "truthy JUndefined = False"
| "truthy JNull = False"
| "truthy (JBool b) = b"
| "truthy (JNum n) = (n \<noteq> 0)"
| "truthy (JStr s) = (s \<noteq> [])"
| "truthy (JArr _) = True"
| "truthy (JObj _) = True"

text \<open>\<^verbatim>\<open>a || b\<close> and \<^verbatim>\<open>a ?? b\<close>.\<close>

definition js_or :: "jsval \<Rightarrow> jsval \<Rightarrow> jsval" where
  "js_or a b = (if truthy a then a else b)"

definition js_coalesce :: "jsval \<Rightarrow> jsval \<Rightarrow> jsval" where
  "js_coalesce a b = (if nullish a then b else a)"

text \<open>
  The property read \<^verbatim>\<open>v.k\<close> of a value that is not \<^verbatim>\<open>null\<close>/\<^verbatim>\<open>undefined\<close>, for the property
  names the server reads (none of them is inherited from a prototype, \<^verbatim>\<open>length\<close> apart).
\<close>

fun read_prop :: "jsval \<Rightarrow> string \<Rightarrow> jsval" where
  "read_prop (JObj ps) k = (case map_of ps k of Some v \<Rightarrow> v | None \<Rightarrow> JUndefined)"
| "read_prop (JArr xs) k = (if k = ''length'' then JNum (int (length xs)) else JUndefined)"
| "read_prop (JStr s) k = (if k = ''length'' then JNum (int (length s)) else JUndefined)"
| "read_prop _ k = JUndefined"

text \<open>\<^verbatim>\<open>v.k\<close>: a TypeError on \<^verbatim>\<open>null\<close> and \<^verbatim>\<open>undefined\<close>.\<close>

definition get_prop :: "jsval \<Rightarrow> string \<Rightarrow> exn + jsval" where
  "get_prop v k = (if nullish v then Inl TypeError else Inr (read_prop v k))"

text \<open>\<^verbatim>\<open>v?.k\<close>: \<^verbatim>\<open>undefined\<close> on \<^verbatim>\<open>null\<close> and \<^verbatim>\<open>undefined\<close>.\<close>

definition opt_prop :: "jsval \<Rightarrow> string \<Rightarrow> jsval" where
  "opt_prop v k = (if nullish v then JUndefined else read_prop v k)"

section \<open>The lesson store\<close>

text \<open>
  \<^verbatim>\<open>const lessons = new Map()\<close>, keyed by the lesson id. A lesson is the object literal of
  the POST handler: eight fields.
\<close>

record lesson =
  lesson_id :: string
  title :: jsval
  gradeLevel :: jsval
  duration :: jsval
  objectives :: jsval
  content :: jsval
  resources :: jsval
  updatedAt :: string

type_synonym store = "string \<rightharpoonup> lesson"

text \<open>
  \<^verbatim>\<open>req.body\<close> as \<^verbatim>\<open>express.json()\<close> leaves it, or \<^verbatim>\<open>multer\<close> for a multipart form: the
  property list of an object (the fields of the form are strings; a JSON body has any
  values; no body gives the empty object).
\<close>

type_synonym body = "(string \<times> jsval) list"

definition field :: "body \<Rightarrow> string \<Rightarrow> jsval" where
  "field b k = read_prop (JObj b) k"

text \<open>What a handler sends: the status code and, for a JSON reply, the body.\<close>

datatype reply = ReplyLesson nat lesson | ReplyError nat string | ReplyEmpty nat

text \<open>
  \<^verbatim>\<open>app.post("/api/lessons")\<close>. \<open>uuid\<close> is the value of \<^verbatim>\<open>crypto.randomUUID()\<close> and \<open>now\<close>
  that of \<^verbatim>\<open>new Date().toISOString()\<close>.
\<close>

definition post_lesson :: "string \<Rightarrow> string \<Rightarrow> body \<Rightarrow> store \<Rightarrow> reply \<times> store" where
  "post_lesson uuid now b lessons =
     (let l = \<lparr> lesson_id = uuid,
                title = js_or (field b ''title'') (JStr ''Untitled lesson''),
                gradeLevel = js_or (field b ''gradeLevel'') (JStr ''''),
                duration = js_or (field b ''duration'') (JStr ''''),
                objectives = js_or (field b ''objectives'') (JStr ''''),
                content = js_or (field b ''content'') (JStr ''''),
                resources = js_or (field b ''resources'') (JArr []),
                updatedAt = now \<rparr>
      in (ReplyLesson 201 l, lessons(lesson_id l \<mapsto> l)))"

text \<open>\<^verbatim>\<open>app.put("/api/lessons/:id")\<close>; \<open>rid\<close> is \<^verbatim>\<open>req.params.id\<close>.\<close>

definition put_lesson :: "string \<Rightarrow> string \<Rightarrow> body \<Rightarrow> store \<Rightarrow> reply \<times> store" where
  "put_lesson now rid b lessons =
     (case lessons rid of
        None \<Rightarrow> (ReplyError 404 ''Lesson not found'', lessons)
      | Some l \<Rightarrow>
          (let updated = l \<lparr> title := js_coalesce (field b ''title'') (title l),
                             gradeLevel := js_coalesce (field b ''gradeLevel'') (gradeLevel l),
                             duration := js_coalesce (field b ''duration'') (duration l),
                             objectives := js_coalesce (field b ''objectives'') (objectives l),
                             content := js_coalesce (field b ''content'') (content l),
                             resources := js_coalesce (field b ''resources'') (resources l),
                             updatedAt := now \<rparr>
           in (ReplyLesson 200 updated, lessons(lesson_id updated \<mapsto> updated))))"

text \<open>\<^verbatim>\<open>app.delete("/api/lessons/:id")\<close>.\<close>

definition delete_lesson :: "string \<Rightarrow> store \<Rightarrow> reply \<times> store" where
  "delete_lesson rid lessons =
     (if lessons rid = None then (ReplyError 404 ''Lesson not found'', lessons)
      else (ReplyEmpty 204, lessons(rid := None)))"

text \<open>
  The stores the server can be in: the empty one at start-up, changed by the three
  handlers only. Every record of such a store sits under its own id.
\<close>

inductive reachable :: "store \<Rightarrow> bool" where
  start: "reachable Map.empty"
| post: "reachable s \<Longrightarrow> reachable (snd (post_lesson uuid now b s))"
| put: "reachable s \<Longrightarrow> reachable (snd (put_lesson now rid b s))"
| delete: "reachable s \<Longrightarrow> reachable (snd (delete_lesson rid s))"

definition keyed :: "store \<Rightarrow> bool" where
  "keyed s = (\<forall>k l. s k = Some l \<longrightarrow> lesson_id l = k)"

section \<open>Conversions to strings\<close>

text \<open>The decimal numeral of a number, as \<^verbatim>\<open>String(n)\<close> prints an integer.\<close>

fun string_of_nat :: "nat \<Rightarrow> string" where
  "string_of_nat n =
     (if n < 10 then [''0123456789'' ! n]
      else string_of_nat (n div 10) @ [''0123456789'' ! (n mod 10)])"

declare string_of_nat.simps [simp del]

definition string_of_int :: "int \<Rightarrow> string" where
  "string_of_int i = (if i < 0 then CHR ''-'' # string_of_nat (nat (- i)) else string_of_nat (nat i))"

text \<open>\<^verbatim>\<open>xs.join(sep)\<close> on an array of strings.\<close>

fun js_join :: "string \<Rightarrow> string list \<Rightarrow> string" where
  "js_join sep [] = []"
| "js_join sep [x] = x"
| "js_join sep (x # y # ys) = x @ sep @ js_join sep (y # ys)"

text \<open>
  \<^verbatim>\<open>String(v)\<close>, also what a template literal \<^verbatim>\<open>`${v}`\<close> and \<^verbatim>\<open>URLSearchParams\<close> do to a
  value: an array prints its elements separated by commas, \<^verbatim>\<open>null\<close> and \<^verbatim>\<open>undefined\<close>
  elements as nothing.
\<close>

fun js_String :: "jsval \<Rightarrow> string" where
  "js_String JUndefined = ''undefined''"
| "js_String JNull = ''null''"
| "js_String (JBool b) = (if b then ''true'' else ''false'')"
| "js_String (JNum n) = string_of_int n"
| "js_String (JStr s) = s"
| "js_String (JArr xs) = js_join '','' (map (\<lambda>x. if nullish x then [] else js_String x) xs)"
| "js_String (JObj ps) = ''[object Object]''"

text \<open>\<^verbatim>\<open>s.trim()\<close>: white space and line terminators go, at both ends.\<close>

definition js_space :: "char \<Rightarrow> bool" where
  "js_space c = (c \<in> set [CHR 0x09, CHR 0x0A, CHR 0x0B, CHR 0x0C, CHR 0x0D, CHR 0x20, CHR 0xA0])"

definition trim :: "string \<Rightarrow> string" where
  "trim s = rev (dropWhile js_space (rev (dropWhile js_space s)))"

text \<open>
  \<^verbatim>\<open>v?.trim()\<close>: \<^verbatim>\<open>undefined\<close> when \<open>v\<close> is \<^verbatim>\<open>null\<close>/\<^verbatim>\<open>undefined\<close>, the trimmed string when
  \<open>v\<close> is a string, and a TypeError otherwise (no other JSON value has a \<^verbatim>\<open>trim\<close> method).
\<close>

definition opt_trim :: "jsval \<Rightarrow> exn + jsval" where
  "opt_trim v =
     (if nullish v then Inr JUndefined
      else case v of JStr s \<Rightarrow> Inr (JStr (trim s)) | _ \<Rightarrow> Inl TypeError)"

section \<open>The environment of a generation request\<close>

text \<open>
  The reply of the media search to \<^verbatim>\<open>fetch\<close>: its \<^verbatim>\<open>ok\<close> flag and what
  \<^verbatim>\<open>await response.json()\<close> gives (the parsed body, or the error it rejects with).
\<close>

record http_response =
  ok :: bool
  json :: "exn + jsval"

text \<open>
  The calls a request makes to the outside, in order, each with what came back: a call of
  \<^verbatim>\<open>openaiClient.responses.create\<close> with its argument, and a \<^verbatim>\<open>fetch\<close> of the media search
  with its search parameters.
\<close>

datatype event =
    ModelCall jsval "exn + jsval"
  | FetchCall "(string \<times> string) list" "exn + http_response"

text \<open>
  What the handler does not compute itself. The two services answer as they like: their
  answer may depend on everything that happened before (the calls so far) and on the
  request; \<open>Inl\<close> is a rejected promise. \<open>configured\<close> says that \<^verbatim>\<open>OPENAI_API_KEY\<close> is set
  (\<^verbatim>\<open>openaiClient\<close> is not \<^verbatim>\<open>null\<close>). \<open>utf8\<close> is \<^verbatim>\<open>Buffer.toString("utf8")\<close>, \<open>json_parse\<close>
  is \<^verbatim>\<open>JSON.parse\<close> (\<open>None\<close> when it throws) and \<open>json_stringify\<close> is \<^verbatim>\<open>JSON.stringify\<close>.
\<close>

record env =
  configured :: bool
  utf8 :: "8 word list \<Rightarrow> string"
  json_parse :: "string \<Rightarrow> jsval option"
  json_stringify :: "jsval \<Rightarrow> string"
  fetch :: "event list \<Rightarrow> (string \<times> string) list \<Rightarrow> exn + http_response"
  responses_create :: "event list \<Rightarrow> jsval \<Rightarrow> exn + jsval"

text \<open>An uploaded file as \<^verbatim>\<open>multer\<close> hands it over.\<close>

record upload_file =
  originalname :: string
  buffer :: "8 word list"

section \<open>Upload digest\<close>

definition summarizeUploads :: "env \<Rightarrow> upload_file list \<Rightarrow> string" where
  "summarizeUploads env files =
     js_join [CHR 0x0A, CHR 0x0A]
       (map (\<lambda>fl. let rawText = take 4000 (utf8 env (buffer fl))
                    in ''File: '' @ originalname fl @ [CHR 0x0A] @ rawText) files)"

text \<open>
  \<^verbatim>\<open>req.files?.length ? summarizeUploads(req.files) : "No uploaded files provided."\<close>;
  \<^verbatim>\<open>req.files\<close> is \<^verbatim>\<open>undefined\<close> (\<open>None\<close>) when the request was not a multipart one.
\<close>

definition contextFromFiles :: "env \<Rightarrow> upload_file list option \<Rightarrow> string" where
  "contextFromFiles env files =
     (case files of
        None \<Rightarrow> ''No uploaded files provided.''
      | Some fs \<Rightarrow> if length fs \<noteq> 0 then summarizeUploads env fs else ''No uploaded files provided.'')"

section \<open>Prompts and tools\<close>

definition resolvedImageQuery :: "body \<Rightarrow> exn + jsval" where
  "resolvedImageQuery b =
     (case opt_trim (field b ''imageSearchQuery'') of
        Inl e \<Rightarrow> Inl e
      | Inr t \<Rightarrow>
          Inr (js_or t (JStr (js_String (js_or (field b ''topic'') (JStr ''lesson''))
                             @ '' classroom illustration''))))"

definition systemPrompt :: string where
  "systemPrompt =
     ''You are an assistant for teachers. Create structured lesson plans with citations. '' @
     ''If you use facts from web search, cite them inline like [1], [2]. '' @
     ''You may call the image_search tool to find image URLs and include them.''"

definition userPrompt :: "body \<Rightarrow> string \<Rightarrow> jsval \<Rightarrow> string" where
  \<open>userPrompt b context query =
     ''Build a lesson plan in markdown with sections: Overview, "Learning Objectives", "Materials", "Lesson Steps", "Assessment", and "Homework".''
     @ [CHR 0x0A, CHR 0x0A] @ ''Topic: '' @ js_String (js_or (field b ''topic'') (JStr ''''))
     @ [CHR 0x0A] @ ''Grade level: '' @ js_String (js_or (field b ''gradeLevel'') (JStr ''''))
     @ [CHR 0x0A] @ ''Duration: '' @ js_String (js_or (field b ''duration'') (JStr ''''))
     @ [CHR 0x0A] @ ''Objectives: '' @ js_String (js_or (field b ''objectives'') (JStr ''''))
     @ [CHR 0x0A, CHR 0x0A] @ ''Include any relevant citations for facts.''
     @ [CHR 0x0A, CHR 0x0A] @ ''Uploaded context for RAG:'' @ [CHR 0x0A] @ context
     @ [CHR 0x0A, CHR 0x0A] @ ''If images are requested, call image_search with this query: ''
     @ js_String query
     @ [CHR 0x0A] @ ''YouTube link to include (if any): ''
     @ js_String (js_or (field b ''youtubeUrl'') (JStr ''''))\<close>

definition image_search_tool :: jsval where
  "image_search_tool =
     JObj [(''type'', JStr ''function''),
           (''name'', JStr ''image_search''),
           (''description'', JStr ''Search for classroom-safe images and return direct URLs.''),
           (''parameters'',
              JObj [(''type'', JStr ''object''),
                    (''properties'',
                       JObj [(''query'', JObj [(''type'', JStr ''string'')]),
                             (''count'', JObj [(''type'', JStr ''number''), (''default'', JNum 4)])]),
                    (''required'', JArr [JStr ''query''])])]"

definition tools :: "jsval \<Rightarrow> jsval list" where
  "tools includeWebSearch =
     (if includeWebSearch = JStr ''true'' then [JObj [(''type'', JStr ''web_search'')]] else [])
     @ [image_search_tool]"

section \<open>Image search\<close>

text \<open>Sequencing of computations that may throw; mapping and filtering with them.\<close>

definition bind_e :: "exn + 'a \<Rightarrow> ('a \<Rightarrow> exn + 'b) \<Rightarrow> exn + 'b" where
  "bind_e m f = (case m of Inl e \<Rightarrow> Inl e | Inr x \<Rightarrow> f x)"

fun filter_e :: "('a \<Rightarrow> exn + bool) \<Rightarrow> 'a list \<Rightarrow> exn + 'a list" where
  "filter_e p [] = Inr []"
| "filter_e p (x # xs) =
     (case p x of
        Inl e \<Rightarrow> Inl e
      | Inr keep \<Rightarrow>
          (case filter_e p xs of
             Inl e \<Rightarrow> Inl e
           | Inr ys \<Rightarrow> Inr (if keep then x # ys else ys)))"

fun map_e :: "('a \<Rightarrow> exn + 'b) \<Rightarrow> 'a list \<Rightarrow> exn + 'b list" where
  "map_e f [] = Inr []"
| "map_e f (x # xs) =
     (case f x of
        Inl e \<Rightarrow> Inl e
      | Inr y \<Rightarrow> (case map_e f xs of Inl e \<Rightarrow> Inl e | Inr ys \<Rightarrow> Inr (y # ys)))"

text \<open>\<^verbatim>\<open>v[i]\<close>: an element of an array, a character of a string, a property of an object.\<close>

fun read_index :: "jsval \<Rightarrow> nat \<Rightarrow> jsval" where
  "read_index (JArr xs) i = (if i < length xs then xs ! i else JUndefined)"
| "read_index (JStr s) i = (if i < length s then JStr [s ! i] else JUndefined)"
| "read_index (JObj ps) i = (case map_of ps (string_of_nat i) of Some v \<Rightarrow> v | None \<Rightarrow> JUndefined)"
| "read_index _ i = JUndefined"

definition get_index :: "jsval \<Rightarrow> nat \<Rightarrow> exn + jsval" where
  "get_index v i = (if nullish v then Inl TypeError else Inr (read_index v i))"

text \<open>\<^verbatim>\<open>Object.values(v)\<close>.\<close>

fun object_values :: "jsval \<Rightarrow> exn + jsval list" where
  "object_values JUndefined = Inl TypeError"
| "object_values JNull = Inl TypeError"
| "object_values (JObj ps) = Inr (map snd ps)"
| "object_values (JArr xs) = Inr xs"
| "object_values (JStr s) = Inr (map (\<lambda>c. JStr [c]) s)"
| "object_values _ = Inr []"

text \<open>The \<^verbatim>\<open>URLSearchParams\<close> of the request to the media search.\<close>

definition searchParams :: "jsval \<Rightarrow> jsval \<Rightarrow> (string \<times> string) list" where
  "searchParams query count =
     [(''action'', ''query''),
      (''format'', ''json''),
      (''origin'', ''*''),
      (''generator'', ''search''),
      (''gsrlimit'', js_String count),
      (''gsrsearch'', js_String query),
      (''prop'', ''imageinfo''),
      (''iiprop'', ''url''),
      (''iiurlwidth'', ''800'')]"

text \<open>The filter of \<^verbatim>\<open>performImageSearch\<close>: \<^verbatim>\<open>page.imageinfo?.length\<close>.\<close>

definition has_imageinfo :: "jsval \<Rightarrow> exn + bool" where
  "has_imageinfo page =
     bind_e (get_prop page ''imageinfo'') (\<lambda>info. Inr (truthy (opt_prop info ''length'')))"

text \<open>Its map: the object literal with \<^verbatim>\<open>title\<close>, \<^verbatim>\<open>url\<close> and \<^verbatim>\<open>pageUrl\<close>.\<close>

definition image_result :: "jsval \<Rightarrow> exn + jsval" where
  "image_result page =
     bind_e (get_prop page ''title'') (\<lambda>title.
     bind_e (get_prop page ''imageinfo'') (\<lambda>info.
     bind_e (get_index info 0) (\<lambda>first.
     bind_e (get_prop first ''url'') (\<lambda>url.
       Inr (JObj [(''title'', title),
                  (''url'', url),
                  (''pageUrl'', JStr (''https://commons.wikimedia.org/wiki/'' @ js_String title))])))))"

text \<open>What \<^verbatim>\<open>performImageSearch\<close> makes of the payload of a successful reply.\<close>

definition images_of_payload :: "jsval \<Rightarrow> exn + jsval list" where
  "images_of_payload payload =
     bind_e (if truthy (opt_prop (opt_prop payload ''query'') ''pages'')
             then bind_e (get_prop payload ''query'') (\<lambda>q.
                  bind_e (get_prop q ''pages'') object_values)
             else Inr []) (\<lambda>pages.
     bind_e (filter_e has_imageinfo pages) (\<lambda>kept.
       map_e image_result kept))"

text \<open>
  Lines 39 to 50 of \<^verbatim>\<open>performImageSearch\<close>: what it returns or throws, given what
  \<^verbatim>\<open>await fetch(...)\<close> gave.
\<close>

definition search_result :: "exn + http_response \<Rightarrow> exn + jsval list" where
  "search_result fetched =
     (case fetched of
        Inl e \<Rightarrow> Inl e
      | Inr response \<Rightarrow>
          if \<not> ok response then Inl (Error ''Image search failed.'')
          else (case json response of
                  Inl e \<Rightarrow> Inl e
                | Inr payload \<Rightarrow> images_of_payload payload))"

text \<open>
  \<^verbatim>\<open>performImageSearch(query, count = 4)\<close>: the default is taken when the argument is
  \<^verbatim>\<open>undefined\<close>. \<open>tr\<close> is the calls made so far; the function returns it with its own
  \<^verbatim>\<open>fetch\<close> added.
\<close>

definition performImageSearch ::
  "env \<Rightarrow> event list \<Rightarrow> jsval \<Rightarrow> jsval \<Rightarrow> (exn + jsval list) \<times> event list" where
  "performImageSearch env tr query count_arg =
     (let count = (if count_arg = JUndefined then JNum 4 else count_arg);
          params = searchParams query count;
          fetched = fetch env tr params
      in (search_result fetched, tr @ [FetchCall params fetched]))"

section \<open>The generation session\<close>

definition is_tool_call :: "jsval \<Rightarrow> exn + bool" where
  "is_tool_call item =
     bind_e (get_prop item ''type'') (\<lambda>t. Inr (t = JStr ''tool_call'' \<or> t = JStr ''function_call''))"

text \<open>
  \<^verbatim>\<open>collectToolCalls\<close>: \<^verbatim>\<open>(response?.output || []).filter(...)\<close>. Only an array has a
  \<^verbatim>\<open>filter\<close> method.
\<close>

definition collectToolCalls :: "jsval \<Rightarrow> exn + jsval list" where
  "collectToolCalls response =
     (case js_or (opt_prop response ''output'') (JArr []) of
        JArr output \<Rightarrow> filter_e is_tool_call output
      | _ \<Rightarrow> Inl TypeError)"

text \<open>
  The arguments of a call, lines 181 to 189: the \<^verbatim>\<open>try\<close> block, and the fallback of its
  \<^verbatim>\<open>catch\<close>, which takes whatever is thrown inside it.
\<close>

definition call_arguments :: "env \<Rightarrow> jsval \<Rightarrow> jsval \<Rightarrow> jsval" where
  "call_arguments env resolved call =
     (case get_prop call ''arguments'' of
        Inl e \<Rightarrow> JObj [(''query'', resolved)]
      | Inr a \<Rightarrow>
          (case a of
             JStr s \<Rightarrow>
               (case json_parse env s of
                  None \<Rightarrow> JObj [(''query'', resolved)]
                | Some v \<Rightarrow> v)
           | _ \<Rightarrow> js_or a (JObj [])))"

text \<open>The element pushed on \<^verbatim>\<open>toolOutputs\<close>.\<close>

definition tool_output :: "env \<Rightarrow> jsval \<Rightarrow> jsval list \<Rightarrow> jsval" where
  "tool_output env call_id images =
     JObj [(''tool_call_id'', call_id),
           (''output'', JStr (json_stringify env (JObj [(''results'', JArr images)])))]"

text \<open>
  The body of the \<^verbatim>\<open>for (const call of toolCalls)\<close> loop for one call: \<open>Inr None\<close> when
  the call is passed over (\<^verbatim>\<open>continue\<close>), \<open>Inr (Some out)\<close> when \<open>out\<close> is pushed on
  \<^verbatim>\<open>toolOutputs\<close>, \<open>Inl\<close> when an exception leaves the loop (and the handler's \<^verbatim>\<open>try\<close>
  block).
\<close>

definition tool_call ::
  "env \<Rightarrow> jsval \<Rightarrow> jsval \<Rightarrow> event list \<Rightarrow> (exn + jsval option) \<times> event list" where
  "tool_call env resolved call tr =
     (case get_prop call ''name'' of
        Inl e \<Rightarrow> (Inl e, tr)
      | Inr name \<Rightarrow>
          if name \<noteq> JStr ''image_search'' then (Inr None, tr)
          else
            (let args = call_arguments env resolved call in
             case get_prop args ''query'' of
               Inl e \<Rightarrow> (Inl e, tr)
             | Inr query \<Rightarrow>
                 (case get_prop args ''count'' of
                    Inl e \<Rightarrow> (Inl e, tr)
                  | Inr count \<Rightarrow>
                      (case performImageSearch env tr query count of
                         (Inl e, tr') \<Rightarrow> (Inl e, tr')
                       | (Inr images, tr') \<Rightarrow>
                           (case get_prop call ''call_id'' of
                              Inl e \<Rightarrow> (Inl e, tr')
                            | Inr call_id \<Rightarrow>
                                (Inr (Some (tool_output env call_id images)), tr'))))))"

text \<open>The loop over the calls; \<open>outs\<close> is \<^verbatim>\<open>toolOutputs\<close> so far.\<close>

fun toolOutputs ::
  "env \<Rightarrow> jsval \<Rightarrow> jsval list \<Rightarrow> jsval list \<Rightarrow> event list \<Rightarrow> (exn + jsval list) \<times> event list" where
  "toolOutputs env resolved [] outs tr = (Inr outs, tr)"
| "toolOutputs env resolved (call # calls) outs tr =
     (case tool_call env resolved call tr of
        (Inl e, tr') \<Rightarrow> (Inl e, tr')
      | (Inr None, tr') \<Rightarrow> toolOutputs env resolved calls outs tr'
      | (Inr (Some out), tr') \<Rightarrow> toolOutputs env resolved calls (outs @ [out]) tr')"

text \<open>The argument of the later calls of \<^verbatim>\<open>responses.create\<close>.\<close>

definition continuation :: "jsval \<Rightarrow> jsval \<Rightarrow> jsval list \<Rightarrow> jsval" where
  "continuation previous ts outs =
     JObj [(''previous_response_id'', previous), (''tools'', ts), (''tool_outputs'', JArr outs)]"

text \<open>
  The body of the \<^verbatim>\<open>while\<close> loop, lines 176 to 202: the tool outputs of the calls, the
  next call of the model service with them, and the tool calls of its response. It gives
  the new values of \<^verbatim>\<open>response\<close> and \<^verbatim>\<open>toolCalls\<close>.
\<close>

definition generation_round ::
  "env \<Rightarrow> jsval \<Rightarrow> jsval \<Rightarrow> jsval \<Rightarrow> jsval list \<Rightarrow> event list
     \<Rightarrow> (exn + jsval \<times> jsval list) \<times> event list" where
  "generation_round env ts resolved response toolCalls tr =
     (case toolOutputs env resolved toolCalls [] tr of
        (Inl e, tr1) \<Rightarrow> (Inl e, tr1)
      | (Inr outs, tr1) \<Rightarrow>
          (case get_prop response ''id'' of
             Inl e \<Rightarrow> (Inl e, tr1)
           | Inr previous \<Rightarrow>
               (let request = continuation previous ts outs;
                    created = responses_create env tr1 request;
                    tr2 = tr1 @ [ModelCall request created]
                in case created of
                     Inl e \<Rightarrow> (Inl e, tr2)
                   | Inr response' \<Rightarrow>
                       (case collectToolCalls response' of
                          Inl e \<Rightarrow> (Inl e, tr2)
                        | Inr toolCalls' \<Rightarrow> (Inr (response', toolCalls'), tr2)))))"

text \<open>
  The \<^verbatim>\<open>while (toolCalls.length && safetyCounter < 3)\<close> loop. It returns the last
  response, or the exception that left it.
\<close>

function generation_loop ::
  "env \<Rightarrow> jsval \<Rightarrow> jsval \<Rightarrow> jsval \<Rightarrow> jsval list \<Rightarrow> nat \<Rightarrow> event list \<Rightarrow> (exn + jsval) \<times> event list" where
  "generation_loop env ts resolved response toolCalls safetyCounter tr =
     (if length toolCalls \<noteq> 0 \<and> safetyCounter < 3 then
        (case generation_round env ts resolved response toolCalls tr of
           (Inl e, tr') \<Rightarrow> (Inl e, tr')
         | (Inr (response', toolCalls'), tr') \<Rightarrow>
             generation_loop env ts resolved response' toolCalls' (safetyCounter + 1) tr')
      else (Inr response, tr))"
  by pat_completeness auto
termination
  by (relation "measure (\<lambda>(env, ts, resolved, response, toolCalls, safetyCounter, tr). 3 - safetyCounter)")
     auto

declare generation_loop.simps [simp del]

text \<open>
  What the handler sends for a generation request: \<^verbatim>\<open>res.json({content, citations})\<close>, or
  status 500 with the message of the error as the one field \<^verbatim>\<open>error\<close>.
\<close>

datatype ai_reply = Completed jsval jsval | Failed exn

text \<open>Lines 206 to 211: the text and the citations of the last response.\<close>

definition final_reply :: "jsval \<Rightarrow> exn + jsval \<times> jsval" where
  "final_reply response =
     bind_e (get_prop response ''output_text'') (\<lambda>text.
     bind_e (get_prop response ''output'') (\<lambda>output.
       let lessonText = js_or text (JStr '''');
           first = (if nullish output then JUndefined else read_index output 0)
       in Inr (lessonText, js_or (opt_prop first ''content'') (JArr []))))"

text \<open>The first argument of \<^verbatim>\<open>responses.create\<close>.\<close>

definition first_request :: "string \<Rightarrow> string \<Rightarrow> jsval \<Rightarrow> jsval" where
  "first_request system user ts =
     JObj [(''model'', JStr ''gpt-4.1-mini''),
           (''input'', JArr [JObj [(''role'', JStr ''system''), (''content'', JStr system)],
                             JObj [(''role'', JStr ''user''), (''content'', JStr user)]]),
           (''tools'', ts)]"

text \<open>The \<^verbatim>\<open>try\<close> block of the handler of \<^verbatim>\<open>POST /api/ai/lesson\<close>.\<close>

definition session ::
  "env \<Rightarrow> body \<Rightarrow> upload_file list option \<Rightarrow> (exn + jsval \<times> jsval) \<times> event list" where
  "session env b files =
     (case resolvedImageQuery b of
        Inl e \<Rightarrow> (Inl e, [])
      | Inr resolved \<Rightarrow>
          (let context = contextFromFiles env files;
               ts = JArr (tools (field b ''includeWebSearch''));
               request = first_request systemPrompt (userPrompt b context resolved) ts;
               created = responses_create env [] request;
               tr = [ModelCall request created]
           in case created of
                Inl e \<Rightarrow> (Inl e, tr)
              | Inr response \<Rightarrow>
                  (case collectToolCalls response of
                     Inl e \<Rightarrow> (Inl e, tr)
                   | Inr toolCalls \<Rightarrow>
                       (case generation_loop env ts resolved response toolCalls 0 tr of
                          (Inl e, tr') \<Rightarrow> (Inl e, tr')
                        | (Inr last_response, tr') \<Rightarrow> (final_reply last_response, tr')))))"

text \<open>The handler: its reply and the calls it made.\<close>

definition ai_lesson :: "env \<Rightarrow> body \<Rightarrow> upload_file list option \<Rightarrow> ai_reply \<times> event list" where
  "ai_lesson env b files =
     (if \<not> configured env then (Failed (Error ''OPENAI_API_KEY is not configured.''), [])
      else case session env b files of
             (Inl e, tr) \<Rightarrow> (Failed e, tr)
           | (Inr (lessonText, citations), tr) \<Rightarrow> (Completed lessonText citations, tr))"

section \<open>Definitions used to state the properties\<close>

text \<open>
  The upload digest in the words of the specification (section 4.1): one block
  \<^verbatim>\<open>File: <name>\n<text>\<close> per file, the text cut to 4000 characters, the blocks in the
  order of the files and separated by a blank line; a fixed placeholder when there is no
  file.
\<close>

definition file_block :: "env \<Rightarrow> upload_file \<Rightarrow> string" where
  "file_block env f = ''File: '' @ originalname f @ [CHR 0x0A] @ take 4000 (utf8 env (buffer f))"

fun upload_digest :: "env \<Rightarrow> upload_file list \<Rightarrow> string" where
  "upload_digest env [] = ''No uploaded files provided.''"
| "upload_digest env (f # fs) =
     file_block env f @ concat (map (\<lambda>g. [CHR 0x0A, CHR 0x0A] @ file_block env g) fs)"


text \<open>The calls of the model service among the calls of a request.\<close>

fun is_model_call :: "event \<Rightarrow> bool" where
  "is_model_call (ModelCall request r) = True"
| "is_model_call (FetchCall params r) = False"

definition model_calls :: "event list \<Rightarrow> event list" where
  "model_calls tr = filter is_model_call tr"

section \<open>Scenarios\<close>

text \<open>
  A model service that asks for an image search in every response, unparseable arguments
  included, and a media search that finds nothing.
\<close>

definition looping_call :: jsval where
  "looping_call =
     JObj [(''type'', JStr ''function_call''), (''name'', JStr ''image_search''),
           (''arguments'', JStr ''{bad''), (''call_id'', JStr ''c1'')]"

definition looping_response :: jsval where
  "looping_response =
     JObj [(''id'', JStr ''r1''), (''output'', JArr [looping_call]), (''output_text'', JStr ''draft'')]"

definition looping_env :: env where
  "looping_env =
     \<lparr> configured = True,
       utf8 = map (\<lambda>w. CHR ''a''),
       json_parse = (\<lambda>s. None),
       json_stringify = (\<lambda>v. ''{}''),
       fetch = (\<lambda>tr params. Inr \<lparr> ok = True, json = Inr (JObj []) \<rparr>),
       responses_create = (\<lambda>tr request. Inr looping_response) \<rparr>"

section \<open>Well-formed payloads of the media search\<close>

text \<open>
  A page entry as the media search documents it: an object with a string \<^verbatim>\<open>title\<close> and,
  when the page has an image, the array \<^verbatim>\<open>imageinfo\<close> of objects with a string \<^verbatim>\<open>url\<close>.
\<close>

fun is_string :: "jsval \<Rightarrow> bool" where
  "is_string (JStr s) = True"
| "is_string _ = False"

fun image_infos :: "jsval \<Rightarrow> jsval list" where
  "image_infos page = (case read_prop page ''imageinfo'' of JArr infos \<Rightarrow> infos | _ \<Rightarrow> [])"

fun documented_page :: "jsval \<Rightarrow> bool" where
  "documented_page (JObj ps) =
     (is_string (read_prop (JObj ps) ''title'')
      \<and> (case read_prop (JObj ps) ''imageinfo'' of
            JUndefined \<Rightarrow> True
          | JArr infos \<Rightarrow> list_all (\<lambda>info. is_string (read_prop info ''url'')) infos
          | _ \<Rightarrow> False))"
| "documented_page _ = False"

text \<open>The image result the specification promises: three fields, each a string.\<close>

fun complete_image_result :: "jsval \<Rightarrow> bool" where
  "complete_image_result (JObj [(k1, JStr t), (k2, JStr u), (k3, JStr p)]) =
     (k1 = ''title'' \<and> k2 = ''url'' \<and> k3 = ''pageUrl'')"
| "complete_image_result _ = False"

text \<open>
  A media search whose reply has a file page without a file: its image information
  carries \<^verbatim>\<open>filemissing\<close> in place of a \<^verbatim>\<open>url\<close>.
\<close>

definition missing_file_payload :: jsval where
  "missing_file_payload =
     JObj [(''query'',
            JObj [(''pages'',
                   JObj [(''101'',
                          JObj [(''title'', JStr ''File:Leaf.jpg''),
                                (''imageinfo'', JArr [JObj [(''filemissing'', JStr [])]])])])])]"

definition missing_file_env :: env where
  "missing_file_env =
     looping_env \<lparr> fetch := (\<lambda>tr params. Inr \<lparr> ok = True, json = Inr missing_file_payload \<rparr>) \<rparr>"

text \<open>A reply with two pages, one of them with an image.\<close>

definition leaf_payload :: jsval where
  "leaf_payload =
     JObj [(''query'',
            JObj [(''pages'',
                   JObj [(''7'', JObj [(''title'', JStr ''Leaf'')]),
                         (''101'',
                          JObj [(''title'', JStr ''File:Leaf.jpg''),
                                (''imageinfo'', JArr [JObj [(''url'', JStr ''https://upload.example/Leaf.jpg'')]])])])])]"

text \<open>The page entries \<^verbatim>\<open>performImageSearch\<close> goes through: \<^verbatim>\<open>pages\<close> of line 43.\<close>

definition payload_pages :: "jsval \<Rightarrow> jsval list" where
  "payload_pages payload =
     (let pages = opt_prop (opt_prop payload ''query'') ''pages''
      in if truthy pages then (case object_values pages of Inl e \<Rightarrow> [] | Inr xs \<Rightarrow> xs) else [])"

definition leaf_env :: env where
  "leaf_env = looping_env \<lparr> fetch := (\<lambda>tr params. Inr \<lparr> ok = True, json = Inr leaf_payload \<rparr>) \<rparr>"

section \<open>Failed image searches among the calls\<close>

fun search_failed :: "event \<Rightarrow> bool" where
  "search_failed (FetchCall params fetched) = isl (search_result fetched)"
| "search_failed (ModelCall request created) = False"

text \<open>
  A computation that starts after the calls \<open>tr\<close> and ends with \<open>out\<close> stops at a failed
  image search: either no search it made has failed, or exactly the last call it made is
  a failed search and it ends with the error of that search.
\<close>

definition stops_at_failed_search :: "event list \<Rightarrow> (exn + 'a) \<times> event list \<Rightarrow> bool" where
  "stops_at_failed_search tr out =
     (\<exists>ext. snd out = tr @ ext
        \<and> (list_all (\<lambda>ev. \<not> search_failed ev) ext
           \<or> (\<exists>pre params fetched e.
                 ext = pre @ [FetchCall params fetched]
                 \<and> list_all (\<lambda>ev. \<not> search_failed ev) pre
                 \<and> search_result fetched = Inl e \<and> fst out = Inl e)))"

text \<open>Media searches that fail: a rejected request, a body that is not JSON, a status that is not a success.\<close>

definition rejecting_env :: env where
  "rejecting_env = looping_env \<lparr> fetch := (\<lambda>tr params. Inl (Error ''fetch failed'')) \<rparr>"

definition not_json_env :: env where
  "not_json_env =
     looping_env \<lparr> fetch := (\<lambda>tr params. Inr \<lparr> ok = True, json = Inl (Error ''Unexpected token'') \<rparr>) \<rparr>"

definition unavailable_env :: env where
  "unavailable_env =
     looping_env \<lparr> fetch := (\<lambda>tr params. Inr \<lparr> ok = False, json = Inr JNull \<rparr>) \<rparr>"

section \<open>Recognized tool calls\<close>

text \<open>The calls the loop answers: those named \<^verbatim>\<open>image_search\<close>.\<close>

definition recognized :: "jsval \<Rightarrow> bool" where
  "recognized call = (get_prop call ''name'' = Inr (JStr ''image_search''))"



section \<open>The tools of a session\<close>

text \<open>A call of the model service carries the tools \<open>ts\<close> (any fetch does).\<close>

fun carries_tools :: "jsval \<Rightarrow> event \<Rightarrow> bool" where
  "carries_tools ts (ModelCall request created) = (read_prop request ''tools'' = ts)"
| "carries_tools ts (FetchCall params fetched) = True"

section \<open>The scenario of one image search\<close>

text \<open>
  The model service asks once for images of leaf cells, two of them, and then writes the
  lesson; the media search answers with \<open>leaf_payload\<close>. \<open>JSON.parse\<close> is given on the one
  string it is applied to.
\<close>

definition leaf_arguments :: string where
  \<open>leaf_arguments = ''{"query":"leaf cells","count":2}''\<close>

definition leaf_call :: jsval where
  "leaf_call =
     JObj [(''type'', JStr ''function_call''), (''name'', JStr ''image_search''),
           (''arguments'', JStr leaf_arguments), (''call_id'', JStr ''call_1'')]"

definition leaf_response :: jsval where
  "leaf_response = JObj [(''id'', JStr ''resp_0''), (''output'', JArr [leaf_call])]"

definition lesson_response :: jsval where
  "lesson_response =
     JObj [(''id'', JStr ''resp_1''),
           (''output'', JArr [JObj [(''type'', JStr ''message''), (''content'', JArr [])]]),
           (''output_text'', JStr ''# Leaf cells'')]"

definition leaf_scenario_env :: env where
  "leaf_scenario_env =
     \<lparr> configured = True,
       utf8 = map (\<lambda>w. CHR ''a''),
       json_parse = (\<lambda>s. if s = leaf_arguments
                           then Some (JObj [(''query'', JStr ''leaf cells''), (''count'', JNum 2)])
                           else None),
       json_stringify = (\<lambda>v. ''{}''),
       fetch = (\<lambda>tr params. Inr \<lparr> ok = True, json = Inr leaf_payload \<rparr>),
       responses_create = (\<lambda>tr request. if tr = [] then Inr leaf_response else Inr lesson_response) \<rparr>"

definition plain_env :: env where
  "plain_env = leaf_scenario_env \<lparr> responses_create := (\<lambda>tr request. Inr lesson_response) \<rparr>"

section \<open>The lesson store: updates and deletions\<close>

lemma reachable_keyed: "reachable s \<Longrightarrow> keyed s"
  by (induction rule: reachable.induct)
     (auto simp: keyed_def post_lesson_def put_lesson_def delete_lesson_def Let_def
           split: option.splits if_splits)

text \<open>
  C10. In a store the server can reach, a PUT of an existing id replies with the updated
  record and stores it under the same id: the id is kept, \<open>updatedAt\<close> is the time of the
  request, each of the six other fields is the one of the request when that is neither
  \<^verbatim>\<open>null\<close> nor \<^verbatim>\<open>undefined\<close> and the stored one otherwise, and no other key of the store
  changes. A PUT or a DELETE of an id that is not in the store replies 404 and leaves the
  store as it is.
\<close>

theorem put_delete_frame:
  assumes "reachable s"
  shows "(\<forall>l. s rid = Some l \<longrightarrow>
            (\<exists>u. put_lesson now rid b s = (ReplyLesson 200 u, s(rid \<mapsto> u))
               \<and> lesson_id u = rid \<and> lesson_id l = rid \<and> updatedAt u = now
               \<and> title u = (if nullish (field b ''title'') then title l else field b ''title'')
               \<and> gradeLevel u = (if nullish (field b ''gradeLevel'') then gradeLevel l else field b ''gradeLevel'')
               \<and> duration u = (if nullish (field b ''duration'') then duration l else field b ''duration'')
               \<and> objectives u = (if nullish (field b ''objectives'') then objectives l else field b ''objectives'')
               \<and> content u = (if nullish (field b ''content'') then content l else field b ''content'')
               \<and> resources u = (if nullish (field b ''resources'') then resources l else field b ''resources'')
               \<and> (\<forall>k. k \<noteq> rid \<longrightarrow> snd (put_lesson now rid b s) k = s k)))
       \<and> (s rid = None \<longrightarrow>
            put_lesson now rid b s = (ReplyError 404 ''Lesson not found'', s)
            \<and> delete_lesson rid s = (ReplyError 404 ''Lesson not found'', s))"
proof (cases "s rid")
  case None
  then show ?thesis
    by (simp add: put_lesson_def delete_lesson_def)
next
  case (Some l)
  have "keyed s" using assms by (rule reachable_keyed)
  with Some have key: "lesson_id l = rid"
    by (simp add: keyed_def)
  let ?u = "l \<lparr> title := js_coalesce (field b ''title'') (title l),
                  gradeLevel := js_coalesce (field b ''gradeLevel'') (gradeLevel l),
                  duration := js_coalesce (field b ''duration'') (duration l),
                  objectives := js_coalesce (field b ''objectives'') (objectives l),
                  content := js_coalesce (field b ''content'') (content l),
                  resources := js_coalesce (field b ''resources'') (resources l),
                  updatedAt := now \<rparr>"
  have put: "put_lesson now rid b s = (ReplyLesson 200 ?u, s(rid \<mapsto> ?u))"
    using Some key by (simp add: put_lesson_def Let_def)
  have frame: "\<forall>k. k \<noteq> rid \<longrightarrow> snd (put_lesson now rid b s) k = s k"
    unfolding put by simp
  have fields: "lesson_id ?u = rid \<and> lesson_id l = rid \<and> updatedAt ?u = now
               \<and> title ?u = (if nullish (field b ''title'') then title l else field b ''title'')
               \<and> gradeLevel ?u = (if nullish (field b ''gradeLevel'') then gradeLevel l else field b ''gradeLevel'')
               \<and> duration ?u = (if nullish (field b ''duration'') then duration l else field b ''duration'')
               \<and> objectives ?u = (if nullish (field b ''objectives'') then objectives l else field b ''objectives'')
               \<and> content ?u = (if nullish (field b ''content'') then content l else field b ''content'')
               \<and> resources ?u = (if nullish (field b ''resources'') then resources l else field b ''resources'')"
    using key by (simp add: js_coalesce_def)
  have "\<exists>u. put_lesson now rid b s = (ReplyLesson 200 u, s(rid \<mapsto> u))
               \<and> lesson_id u = rid \<and> lesson_id l = rid \<and> updatedAt u = now
               \<and> title u = (if nullish (field b ''title'') then title l else field b ''title'')
               \<and> gradeLevel u = (if nullish (field b ''gradeLevel'') then gradeLevel l else field b ''gradeLevel'')
               \<and> duration u = (if nullish (field b ''duration'') then duration l else field b ''duration'')
               \<and> objectives u = (if nullish (field b ''objectives'') then objectives l else field b ''objectives'')
               \<and> content u = (if nullish (field b ''content'') then content l else field b ''content'')
               \<and> resources u = (if nullish (field b ''resources'') then resources l else field b ''resources'')
               \<and> (\<forall>k. k \<noteq> rid \<longrightarrow> snd (put_lesson now rid b s) k = s k)"
    using put fields frame by (intro exI [of _ ?u]) (simp only: simp_thms)
  with Some show ?thesis
    by simp
qed

theorem put_delete_frame_witness:
  "reachable (snd (post_lesson ''id1'' ''t0'' [(''title'', JStr ''Plants'')] Map.empty))
   \<and> (\<exists>u. put_lesson ''t1'' ''id1'' [(''content'', JStr ''Leaves''), (''title'', JNull)]
             (snd (post_lesson ''id1'' ''t0'' [(''title'', JStr ''Plants'')] Map.empty))
           = (ReplyLesson 200 u,
              (snd (post_lesson ''id1'' ''t0'' [(''title'', JStr ''Plants'')] Map.empty))(''id1'' \<mapsto> u))
         \<and> lesson_id u = ''id1'' \<and> updatedAt u = ''t1''
         \<and> title u = JStr ''Plants'' \<and> content u = JStr ''Leaves'')
   \<and> snd (put_lesson ''t1'' ''id1'' [(''content'', JStr ''Leaves''), (''title'', JNull)]
             (snd (post_lesson ''id1'' ''t0'' [(''title'', JStr ''Plants'')] Map.empty))) ''id2''
       = snd (post_lesson ''id1'' ''t0'' [(''title'', JStr ''Plants'')] Map.empty) ''id2''
   \<and> put_lesson ''t1'' ''id2'' [(''content'', JStr ''Leaves'')]
        (snd (post_lesson ''id1'' ''t0'' [(''title'', JStr ''Plants'')] Map.empty))
      = (ReplyError 404 ''Lesson not found'',
         snd (post_lesson ''id1'' ''t0'' [(''title'', JStr ''Plants'')] Map.empty))
   \<and> delete_lesson ''id2'' (snd (post_lesson ''id1'' ''t0'' [(''title'', JStr ''Plants'')] Map.empty))
      = (ReplyError 404 ''Lesson not found'',
         snd (post_lesson ''id1'' ''t0'' [(''title'', JStr ''Plants'')] Map.empty))"
proof -
  let ?s = "snd (post_lesson ''id1'' ''t0'' [(''title'', JStr ''Plants'')] Map.empty)"
  let ?b = "[(''content'', JStr ''Leaves''), (''title'', JNull)]"
  let ?l = "\<lparr> lesson_id = ''id1'', title = JStr ''Plants'', gradeLevel = JStr [],
              duration = JStr [], objectives = JStr [], content = JStr [],
              resources = JArr [], updatedAt = ''t0'' \<rparr>"
  have r: "reachable ?s" by (rule reachable.post) (rule reachable.start)
  have s1: "?s ''id1'' = Some ?l"
    by (simp add: post_lesson_def field_def js_or_def Let_def)
  have s2: "?s ''id2'' = None"
    by (simp add: post_lesson_def Let_def)
  have f1: "field ?b ''title'' = JNull" and f2: "field ?b ''content'' = JStr ''Leaves''"
    by (simp_all add: field_def)
  note t1 = put_delete_frame [OF r, of "''id1''" "''t1''" ?b]
  from mp [OF spec [OF conjunct1 [OF t1]] s1]
  obtain u where
    u: "put_lesson ''t1'' ''id1'' ?b ?s = (ReplyLesson 200 u, ?s(''id1'' \<mapsto> u))"
    "lesson_id u = ''id1''" "updatedAt u = ''t1''"
    "title u = (if nullish (field ?b ''title'') then title ?l else field ?b ''title'')"
    "content u = (if nullish (field ?b ''content'') then content ?l else field ?b ''content'')"
    "\<forall>k. k \<noteq> ''id1'' \<longrightarrow> snd (put_lesson ''t1'' ''id1'' ?b ?s) k = ?s k"
    by (elim exE conjE)
  have "''id2'' \<noteq> ''id1''"
    by simp
  from mp [OF spec [OF u(6), of "''id2''"] this]
  have fr: "snd (put_lesson ''t1'' ''id1'' ?b ?s) ''id2'' = ?s ''id2''" .
  have "title u = JStr ''Plants''" "content u = JStr ''Leaves''"
    using u(4,5) unfolding f1 f2 by simp_all
  with u(1,2,3)
  have a: "\<exists>u. put_lesson ''t1'' ''id1'' ?b ?s = (ReplyLesson 200 u, ?s(''id1'' \<mapsto> u))
         \<and> lesson_id u = ''id1'' \<and> updatedAt u = ''t1''
         \<and> title u = JStr ''Plants'' \<and> content u = JStr ''Leaves''"
    by (intro exI [of _ u] conjI)
  note t2 = put_delete_frame [OF r, of "''id2''" "''t1''" "[(''content'', JStr ''Leaves'')]"]
  have b: "put_lesson ''t1'' ''id2'' [(''content'', JStr ''Leaves'')] ?s = (ReplyError 404 ''Lesson not found'', ?s)
     \<and> delete_lesson ''id2'' ?s = (ReplyError 404 ''Lesson not found'', ?s)"
    by (rule mp [OF conjunct2 [OF t2] s2])
  show ?thesis by (rule conjI [OF r conjI [OF a conjI [OF fr b]]])
qed

section \<open>The upload digest\<close>

lemma js_join_Cons: "js_join sep (x # xs) = x @ concat (map (\<lambda>y. sep @ y) xs)"
  by (induction xs arbitrary: x) simp_all

lemma summarizeUploads_Cons:
  "summarizeUploads env (f # fs) = upload_digest env (f # fs)"
  by (simp add: summarizeUploads_def js_join_Cons file_block_def comp_def)

text \<open>
  C6. The upload digest of the handler is the digest of the specification: for a non-empty
  list of files it is one block \<^verbatim>\<open>File: <name>\n<text>\<close> per file, in the order of the
  files and separated by blank lines, the text being the decoded buffer cut to at most
  4000 characters (exactly 4000 for a file of 10000 characters); without files
  (\<^verbatim>\<open>req.files\<close> undefined or empty) it is the placeholder.
\<close>

theorem upload_digest_refinement:
  "contextFromFiles env None = ''No uploaded files provided.''
   \<and> contextFromFiles env (Some []) = ''No uploaded files provided.''
   \<and> contextFromFiles env (Some (f # fs))
       = file_block env f @ concat (map (\<lambda>g. [CHR 0x0A, CHR 0x0A] @ file_block env g) fs)
   \<and> contextFromFiles env (Some files) = upload_digest env files
   \<and> file_block env f = ''File: '' @ originalname f @ [CHR 0x0A] @ take 4000 (utf8 env (buffer f))
   \<and> length (take 4000 (utf8 env (buffer f))) \<le> 4000
   \<and> (length (utf8 env (buffer f)) = 10000 \<longrightarrow> length (take 4000 (utf8 env (buffer f))) = 4000)"
proof -
  have d: "contextFromFiles env (Some files) = upload_digest env files" for files
  proof (cases files)
    case Nil
    then show ?thesis by (simp add: contextFromFiles_def)
  next
    case (Cons g gs)
    then show ?thesis
      by (simp only: contextFromFiles_def option.case summarizeUploads_Cons) simp
  qed
  have n: "contextFromFiles env None = ''No uploaded files provided.''"
    by (simp add: contextFromFiles_def)
  have e: "contextFromFiles env (Some []) = ''No uploaded files provided.''"
    by (simp add: contextFromFiles_def)
  have c: "contextFromFiles env (Some (f # fs))
       = file_block env f @ concat (map (\<lambda>g. [CHR 0x0A, CHR 0x0A] @ file_block env g) fs)"
    unfolding d by simp
  have b: "file_block env f = ''File: '' @ originalname f @ [CHR 0x0A] @ take 4000 (utf8 env (buffer f))"
    by (rule file_block_def)
  have l: "length (take 4000 (utf8 env (buffer f))) \<le> 4000"
    by simp
  have t: "length (utf8 env (buffer f)) = 10000 \<longrightarrow> length (take 4000 (utf8 env (buffer f))) = 4000"
    by simp
  from n e c d b l t show ?thesis by (intro conjI)
qed

theorem upload_digest_refinement_witness:
  "length (utf8 \<lparr> configured = True, utf8 = map (\<lambda>w. CHR ''a''), json_parse = (\<lambda>s. None),
                  json_stringify = (\<lambda>v. []), fetch = (\<lambda>tr p. Inl TypeError),
                  responses_create = (\<lambda>tr r. Inl TypeError) \<rparr>
             (buffer \<lparr> originalname = ''notes.txt'', buffer = replicate 10000 0 \<rparr>)) = 10000
   \<and> length (take 4000 (utf8 \<lparr> configured = True, utf8 = map (\<lambda>w. CHR ''a''), json_parse = (\<lambda>s. None),
                  json_stringify = (\<lambda>v. []), fetch = (\<lambda>tr p. Inl TypeError),
                  responses_create = (\<lambda>tr r. Inl TypeError) \<rparr>
             (buffer \<lparr> originalname = ''notes.txt'', buffer = replicate 10000 0 \<rparr>))) = 4000"
  using upload_digest_refinement
    [of "\<lparr> configured = True, utf8 = map (\<lambda>w. CHR ''a''), json_parse = (\<lambda>s. None),
          json_stringify = (\<lambda>v. []), fetch = (\<lambda>tr p. Inl TypeError),
          responses_create = (\<lambda>tr r. Inl TypeError) \<rparr>"
        "\<lparr> originalname = ''notes.txt'', buffer = replicate 10000 0 \<rparr>"]
  by simp

section \<open>The prompts\<close>




section \<open>The generation session\<close>

subsection \<open>The calls made by the parts of a session\<close>

lemma model_calls_append [simp]: "model_calls (xs @ ys) = model_calls xs @ model_calls ys"
  by (simp add: model_calls_def)

lemma model_calls_simps [simp]:
  "model_calls [] = []"
  "model_calls (ModelCall q r # tr) = ModelCall q r # model_calls tr"
  "model_calls (FetchCall p f # tr) = model_calls tr"
  by (simp_all add: model_calls_def)

lemma performImageSearch_trace:
  "snd (performImageSearch env tr query count)
     = tr @ [FetchCall (searchParams query (if count = JUndefined then JNum 4 else count))
                       (fetch env tr (searchParams query (if count = JUndefined then JNum 4 else count)))]"
  by (simp add: performImageSearch_def Let_def)

lemma performImageSearch_traceD:
  assumes "performImageSearch env tr query count = (res, tr')"
  shows "\<exists>p f. tr' = tr @ [FetchCall p f]"
  using performImageSearch_trace [of env tr query count] assms by simp

lemma tool_call_trace:
  "\<exists>ext. snd (tool_call env resolved call tr) = tr @ ext \<and> model_calls ext = []"
  by (auto simp: tool_call_def Let_def split: sum.splits prod.splits
           dest!: performImageSearch_traceD)

lemma toolOutputs_trace:
  "\<exists>ext. snd (toolOutputs env resolved calls outs tr) = tr @ ext \<and> model_calls ext = []"
proof (induction calls arbitrary: outs tr)
  case Nil
  then show ?case by simp
next
  case (Cons call calls)
  obtain res tr' where step: "tool_call env resolved call tr = (res, tr')"
    by (cases "tool_call env resolved call tr")
  with tool_call_trace [of env resolved call tr]
  obtain ext where ext: "tr' = tr @ ext" "model_calls ext = []"
    by auto
  show ?case
  proof (cases res)
    case (Inl e)
    with step ext show ?thesis by simp
  next
    case (Inr out)
    from Cons.IH [of "case out of None \<Rightarrow> outs | Some x \<Rightarrow> outs @ [x]" tr']
    obtain ext' where
      "snd (toolOutputs env resolved calls (case out of None \<Rightarrow> outs | Some x \<Rightarrow> outs @ [x]) tr')
         = tr' @ ext'" "model_calls ext' = []"
      by blast
    with Inr step ext show ?thesis
      by (cases out) simp_all
  qed
qed

text \<open>A round makes at most one call of the model service, after the image searches.\<close>

lemma generation_round_trace:
  "\<exists>ext. snd (generation_round env ts resolved response toolCalls tr) = tr @ ext
         \<and> length (model_calls ext) \<le> 1"
proof -
  obtain res tr1 where t: "toolOutputs env resolved toolCalls [] tr = (res, tr1)"
    by (cases "toolOutputs env resolved toolCalls [] tr")
  with toolOutputs_trace [of env resolved toolCalls "[]" tr]
  obtain ext where ext: "tr1 = tr @ ext" "model_calls ext = []"
    by auto
  then show ?thesis
    using t by (auto simp: generation_round_def Let_def split: sum.splits)
qed

lemma generation_round_success:
  assumes "generation_round env ts resolved response toolCalls tr = (Inr (response', toolCalls'), tr')"
  shows "\<exists>ext request. tr' = tr @ ext @ [ModelCall request (Inr response')]
           \<and> model_calls ext = [] \<and> collectToolCalls response' = Inr toolCalls'"
proof -
  obtain res tr1 where t: "toolOutputs env resolved toolCalls [] tr = (res, tr1)"
    by (cases "toolOutputs env resolved toolCalls [] tr")
  with toolOutputs_trace [of env resolved toolCalls "[]" tr]
  obtain ext where ext: "tr1 = tr @ ext" "model_calls ext = []"
    by auto
  then show ?thesis
    using t assms by (auto simp: generation_round_def Let_def split: sum.splits)
qed

lemma generation_loop_stop:
  assumes "toolCalls = [] \<or> 3 \<le> c"
  shows "generation_loop env ts resolved response toolCalls c tr = (Inr response, tr)"
  using assms by (subst generation_loop.simps) auto

lemma generation_loop_step:
  assumes "toolCalls \<noteq> []" and "c < 3"
  shows "generation_loop env ts resolved response toolCalls c tr =
           (case generation_round env ts resolved response toolCalls tr of
              (Inl e, tr') \<Rightarrow> (Inl e, tr')
            | (Inr (response', toolCalls'), tr') \<Rightarrow>
                generation_loop env ts resolved response' toolCalls' (c + 1) tr')"
  using assms by (subst generation_loop.simps) simp

text \<open>From \<open>safetyCounter = c\<close> on, the loop makes at most \<open>3 - c\<close> calls of the model service.\<close>

lemma generation_loop_trace:
  "\<exists>ext. snd (generation_loop env ts resolved response toolCalls c tr) = tr @ ext
         \<and> length (model_calls ext) \<le> 3 - c"
proof (induction env ts resolved response toolCalls c tr rule: generation_loop.induct)
  case (1 env ts resolved response toolCalls c tr)
  show ?case
  proof (cases "length toolCalls \<noteq> 0 \<and> c < 3")
    case False
    then have "toolCalls = [] \<or> 3 \<le> c" by auto
    then show ?thesis
      by (simp add: generation_loop_stop)
  next
    case True
    then have go: "toolCalls \<noteq> []" "c < 3" by auto
    obtain res tr' where r: "generation_round env ts resolved response toolCalls tr = (res, tr')"
      by (cases "generation_round env ts resolved response toolCalls tr")
    with generation_round_trace [of env ts resolved response toolCalls tr]
    obtain ext where ext: "tr' = tr @ ext" "length (model_calls ext) \<le> 1"
      by auto
    show ?thesis
    proof (cases res)
      case (Inl e)
      with r ext go show ?thesis
        by (simp add: generation_loop_step [OF go])
    next
      case (Inr p)
      obtain response' toolCalls' where p: "p = (response', toolCalls')"
        by (cases p)
      from "1.IH" [OF True r [symmetric] Inr p [symmetric]]
      obtain ext' where
        "snd (generation_loop env ts resolved response' toolCalls' (c + 1) tr') = tr' @ ext'"
        "length (model_calls ext') \<le> 3 - (c + 1)"
        by blast
      with r ext Inr p go show ?thesis
        by (simp add: generation_loop_step [OF go])
    qed
  qed
qed

subsection \<open>The bound on the rounds\<close>

lemma generation_round_failure:
  assumes "generation_round env ts resolved response toolCalls tr = (Inl e, tr')"
  shows "\<exists>ext. tr' = tr @ ext
           \<and> (model_calls ext = []
              \<or> (\<exists>request e'. model_calls ext = [ModelCall request (Inl e')])
              \<or> (\<exists>request r e'. model_calls ext = [ModelCall request (Inr r)]
                     \<and> collectToolCalls r = Inl e'))"
proof -
  obtain res tr1 where t: "toolOutputs env resolved toolCalls [] tr = (res, tr1)"
    by (cases "toolOutputs env resolved toolCalls [] tr")
  with toolOutputs_trace [of env resolved toolCalls "[]" tr]
  obtain ext where ext: "tr1 = tr @ ext" "model_calls ext = []"
    by auto
  then show ?thesis
    using t assms by (auto simp: generation_round_def Let_def split: sum.splits)
qed

text \<open>
  When the loop has made all the calls of the model service it may make, and the last one
  gave a response whose tool calls could be read, the loop ends with that response.
\<close>

lemma generation_loop_bound:
  assumes "generation_loop env ts resolved response toolCalls c tr = (res, tr')"
  shows "\<exists>ext. tr' = tr @ ext \<and> length (model_calls ext) \<le> 3 - c
           \<and> (\<forall>request r calls.
                 c < 3 \<and> length (model_calls ext) = 3 - c
                 \<and> last (model_calls ext) = ModelCall request (Inr r)
                 \<and> collectToolCalls r = Inr calls
                 \<longrightarrow> res = Inr r)"
  using assms
proof (induction env ts resolved response toolCalls c tr arbitrary: res tr'
       rule: generation_loop.induct)
  case (1 env ts resolved response toolCalls c tr)
  show ?case
  proof (cases "length toolCalls \<noteq> 0 \<and> c < 3")
    case False
    then have "toolCalls = [] \<or> 3 \<le> c" by auto
    from generation_loop_stop [OF this] "1.prems" have "tr' = tr" "res = Inr response"
      by simp_all
    then have "tr' = tr @ [] \<and> length (model_calls []) \<le> 3 - c
           \<and> (\<forall>request r calls.
                 c < 3 \<and> length (model_calls []) = 3 - c
                 \<and> last (model_calls []) = ModelCall request (Inr r)
                 \<and> collectToolCalls r = Inr calls
                 \<longrightarrow> res = Inr r)"
      by auto
    then show ?thesis by blast
  next
    case True
    then have go: "toolCalls \<noteq> []" "c < 3" by auto
    obtain rr tr1 where r: "generation_round env ts resolved response toolCalls tr = (rr, tr1)"
      by (cases "generation_round env ts resolved response toolCalls tr")
    show ?thesis
    proof (cases rr)
      case (Inl e)
      with r "1.prems" have res: "res = Inl e" "tr' = tr1"
        by (simp_all add: generation_loop_step [OF go])
      from generation_round_failure [OF r [unfolded Inl]]
      obtain ext where ext: "tr1 = tr @ ext"
        "model_calls ext = []
           \<or> (\<exists>request e'. model_calls ext = [ModelCall request (Inl e')])
           \<or> (\<exists>request r e'. model_calls ext = [ModelCall request (Inr r)]
                  \<and> collectToolCalls r = Inl e')"
        by blast
      from ext(2) go have "length (model_calls ext) \<le> 3 - c
           \<and> (\<forall>request r calls.
                 c < 3 \<and> length (model_calls ext) = 3 - c
                 \<and> last (model_calls ext) = ModelCall request (Inr r)
                 \<and> collectToolCalls r = Inr calls
                 \<longrightarrow> res = Inr r)"
        by auto
      with ext(1) res show ?thesis by blast
    next
      case (Inr p)
      obtain response' toolCalls' where p: "p = (response', toolCalls')"
        by (cases p)
      from r Inr p have r': "generation_round env ts resolved response toolCalls tr
                               = (Inr (response', toolCalls'), tr1)"
        by simp
      from generation_round_success [OF r']
      obtain ext1 request1 where ext1: "tr1 = tr @ ext1 @ [ModelCall request1 (Inr response')]"
        "model_calls ext1 = []" "collectToolCalls response' = Inr toolCalls'"
        by blast
      from r' "1.prems"
      have rec: "generation_loop env ts resolved response' toolCalls' (c + 1) tr1 = (res, tr')"
        by (simp add: generation_loop_step [OF go])
      from "1.IH" [OF True r [symmetric] Inr p [symmetric] rec]
      obtain ext' where ext': "tr' = tr1 @ ext'" "length (model_calls ext') \<le> 3 - (c + 1)"
        and last': "\<And>request r calls.
                 c + 1 < 3 \<Longrightarrow> length (model_calls ext') = 3 - (c + 1)
                 \<Longrightarrow> last (model_calls ext') = ModelCall request (Inr r)
                 \<Longrightarrow> collectToolCalls r = Inr calls
                 \<Longrightarrow> res = Inr r"
        by blast
      let ?ext = "ext1 @ [ModelCall request1 (Inr response')] @ ext'"
      have a: "tr' = tr @ ?ext"
        using ext1(1) ext'(1) by simp
      have mc: "model_calls ?ext = ModelCall request1 (Inr response') # model_calls ext'"
        using ext1(2) by simp
      have b: "length (model_calls ?ext) \<le> 3 - c"
        unfolding mc using ext'(2) go(2) by simp
      have c: "res = Inr r"
        if h: "length (model_calls ?ext) = 3 - c"
          "last (model_calls ?ext) = ModelCall request (Inr r)"
          "collectToolCalls r = Inr calls"
        for request r calls
      proof (cases "c + 1 < 3")
        case True
        from h(1) [unfolded mc] True have n: "length (model_calls ext') = 3 - (c + 1)"
          by simp
        with True have "model_calls ext' \<noteq> []"
          by auto
        with h(2) [unfolded mc] have "last (model_calls ext') = ModelCall request (Inr r)"
          by simp
        from last' [OF True n this h(3)] show ?thesis .
      next
        case False
        then have "toolCalls' = [] \<or> 3 \<le> c + 1" by auto
        from generation_loop_stop [OF this] rec
        have stop: "res = Inr response'" "tr' = tr1"
          by simp_all
        with ext'(1) have "ext' = []" by simp
        with h(2) [unfolded mc] have "r = response'" by simp
        with stop show ?thesis by simp
      qed
      from a b c show ?thesis by blast
    qed
  qed
qed

lemma collectToolCalls_nullish:
  assumes "nullish r"
  shows "collectToolCalls r = Inr []"
  using assms by (simp add: collectToolCalls_def opt_prop_def js_or_def)

lemma final_reply_pending:
  assumes "collectToolCalls r = Inr calls" and "calls \<noteq> []"
  shows "\<exists>citations. final_reply r = Inr (js_or (read_prop r ''output_text'') (JStr ''''), citations)"
proof -
  from assms collectToolCalls_nullish [of r] have "\<not> nullish r"
    by auto
  then show ?thesis
    by (simp add: final_reply_def get_prop_def bind_e_def Let_def)
qed

lemma session_bound:
  assumes "session env b files = (res, tr)"
  shows "length (model_calls tr) \<le> 4
         \<and> (\<forall>request r calls.
               length (model_calls tr) = 4
               \<and> last (model_calls tr) = ModelCall request (Inr r)
               \<and> collectToolCalls r = Inr calls \<and> calls \<noteq> []
               \<longrightarrow> (\<exists>citations. res = Inr (js_or (read_prop r ''output_text'') (JStr ''''), citations)))"
proof (cases "resolvedImageQuery b")
  case (Inl e)
  with assms show ?thesis by (simp add: session_def)
next
  case (Inr resolved)
  let ?ts = "JArr (tools (field b ''includeWebSearch''))"
  let ?request = "first_request systemPrompt (userPrompt b (contextFromFiles env files) resolved) ?ts"
  let ?created = "responses_create env [] ?request"
  show ?thesis
  proof (cases ?created)
    case (Inl e)
    with Inr assms show ?thesis by (auto simp: session_def Let_def)
  next
    case created: (Inr response)
    show ?thesis
    proof (cases "collectToolCalls response")
      case (Inl e)
      with Inr created assms show ?thesis by (auto simp: session_def Let_def)
    next
      case calls: (Inr toolCalls)
      obtain lres ltr where
        l: "generation_loop env ?ts resolved response toolCalls 0 [ModelCall ?request (Inr response)]
              = (lres, ltr)"
        by (cases "generation_loop env ?ts resolved response toolCalls 0
                     [ModelCall ?request (Inr response)]")
      from generation_loop_bound [OF l]
      obtain ext where ext: "ltr = [ModelCall ?request (Inr response)] @ ext"
        "length (model_calls ext) \<le> 3"
        and lst: "\<And>request r calls. length (model_calls ext) = 3
                 \<Longrightarrow> last (model_calls ext) = ModelCall request (Inr r)
                 \<Longrightarrow> collectToolCalls r = Inr calls
                 \<Longrightarrow> lres = Inr r"
        by auto
      from Inr created calls l assms
      have tr: "tr = ltr" and res: "res = (case lres of Inl e \<Rightarrow> Inl e | Inr last_response \<Rightarrow> final_reply last_response)"
        by (auto simp: session_def Let_def split: sum.splits)
      have n: "length (model_calls tr) \<le> 4"
        using ext by (simp add: tr)
      have "\<exists>citations. res = Inr (js_or (read_prop r ''output_text'') (JStr ''''), citations)"
        if h: "length (model_calls tr) = 4" "last (model_calls tr) = ModelCall request (Inr r)"
          "collectToolCalls r = Inr calls" "calls \<noteq> []"
        for request r calls
      proof -
        from h(1) ext have n3: "length (model_calls ext) = 3"
          by (simp add: tr)
        then have "model_calls ext \<noteq> []" by auto
        with h(2) ext have "last (model_calls ext) = ModelCall request (Inr r)"
          by (simp add: tr)
        from lst [OF n3 this h(3)] have "lres = Inr r" .
        with res final_reply_pending [OF h(3,4)] show ?thesis
          by simp
      qed
      with n show ?thesis by blast
    qed
  qed
qed

text \<open>The session in which every response of the model service asks for an image search.\<close>

lemma looping_collect: "collectToolCalls looping_response = Inr [looping_call]"
  by (simp add: collectToolCalls_def looping_response_def looping_call_def opt_prop_def js_or_def
        is_tool_call_def get_prop_def bind_e_def)

lemma looping_tool_call:
  "tool_call looping_env resolved looping_call tr
     = (Inr (Some (tool_output looping_env (JStr ''c1'') [])),
        tr @ [FetchCall (searchParams resolved (JNum 4)) (Inr \<lparr> ok = True, json = Inr (JObj []) \<rparr>)])"
  by (simp add: tool_call_def looping_call_def get_prop_def call_arguments_def looping_env_def
        performImageSearch_def search_result_def Let_def images_of_payload_def opt_prop_def
        bind_e_def)

lemma looping_round:
  "generation_round looping_env ts resolved looping_response [looping_call] tr
     = (Inr (looping_response, [looping_call]),
        tr @ [FetchCall (searchParams resolved (JNum 4)) (Inr \<lparr> ok = True, json = Inr (JObj []) \<rparr>),
              ModelCall (continuation (JStr ''r1'') ts [tool_output looping_env (JStr ''c1'') []])
                        (Inr looping_response)])"
proof -
  have id: "get_prop looping_response ''id'' = Inr (JStr ''r1'')"
    by (simp add: looping_response_def get_prop_def)
  have create: "responses_create looping_env tr1 request = Inr looping_response" for tr1 request
    by (simp add: looping_env_def)
  show ?thesis
    by (simp add: generation_round_def looping_tool_call id create looping_collect Let_def)
qed

lemma looping_loop:
  "generation_loop looping_env ts resolved looping_response [looping_call] 0 tr
     = (Inr looping_response,
        tr @ [FetchCall (searchParams resolved (JNum 4)) (Inr \<lparr> ok = True, json = Inr (JObj []) \<rparr>),
              ModelCall (continuation (JStr ''r1'') ts [tool_output looping_env (JStr ''c1'') []])
                        (Inr looping_response),
              FetchCall (searchParams resolved (JNum 4)) (Inr \<lparr> ok = True, json = Inr (JObj []) \<rparr>),
              ModelCall (continuation (JStr ''r1'') ts [tool_output looping_env (JStr ''c1'') []])
                        (Inr looping_response),
              FetchCall (searchParams resolved (JNum 4)) (Inr \<lparr> ok = True, json = Inr (JObj []) \<rparr>),
              ModelCall (continuation (JStr ''r1'') ts [tool_output looping_env (JStr ''c1'') []])
                        (Inr looping_response)])"
proof -
  have step: "generation_loop looping_env ts resolved looping_response [looping_call] c tr
      = generation_loop looping_env ts resolved looping_response [looping_call] (Suc c)
          (tr @ [FetchCall (searchParams resolved (JNum 4)) (Inr \<lparr> ok = True, json = Inr (JObj []) \<rparr>),
              ModelCall (continuation (JStr ''r1'') ts [tool_output looping_env (JStr ''c1'') []])
                        (Inr looping_response)])" if "c < 3" for c tr
    using that by (simp add: generation_loop_step looping_round)
  show ?thesis
    by (simp add: step generation_loop_stop)
qed

lemma looping_final: "final_reply looping_response = Inr (JStr ''draft'', JArr [])"
  by (simp add: final_reply_def looping_response_def looping_call_def get_prop_def bind_e_def
        js_or_def opt_prop_def Let_def)

lemma looping_session:
  "\<exists>request0 request.
     session looping_env [] None
       = (Inr (JStr ''draft'', JArr []),
          [ModelCall request0 (Inr looping_response),
           FetchCall (searchParams (JStr ''lesson classroom illustration'') (JNum 4))
                     (Inr \<lparr> ok = True, json = Inr (JObj []) \<rparr>),
           ModelCall request (Inr looping_response),
           FetchCall (searchParams (JStr ''lesson classroom illustration'') (JNum 4))
                     (Inr \<lparr> ok = True, json = Inr (JObj []) \<rparr>),
           ModelCall request (Inr looping_response),
           FetchCall (searchParams (JStr ''lesson classroom illustration'') (JNum 4))
                     (Inr \<lparr> ok = True, json = Inr (JObj []) \<rparr>),
           ModelCall request (Inr looping_response)])"
proof -
  have q: "resolvedImageQuery [] = Inr (JStr ''lesson classroom illustration'')"
    by (simp add: resolvedImageQuery_def field_def opt_trim_def js_or_def)
  have create: "responses_create looping_env tr1 request = Inr looping_response" for tr1 request
    by (simp add: looping_env_def)
  show ?thesis
    by (simp add: session_def q create looping_collect looping_loop looping_final Let_def)
qed

text \<open>
  C1. Whatever the model service and the media search answer, a generation request makes
  at most four calls of the model service (the loop at most three, and none once
  \<^verbatim>\<open>safetyCounter\<close> is 3, whatever tool calls are pending) and ends with a reply, completed
  or failed. When the fourth call was made and its response still carries tool calls, the
  request completes with the text of that response (\<^verbatim>\<open>output_text || ""\<close>).
\<close>

theorem generation_bounded:
  "length (model_calls (snd (ai_lesson env b files))) \<le> 4
   \<and> length (model_calls (snd (generation_loop env ts resolved response toolCalls 0 tr)))
       \<le> length (model_calls tr) + 3
   \<and> generation_loop env ts resolved response toolCalls 3 tr = (Inr response, tr)
   \<and> ((\<exists>lessonText citations. fst (ai_lesson env b files) = Completed lessonText citations)
      \<or> (\<exists>e. fst (ai_lesson env b files) = Failed e))
   \<and> (\<forall>request r calls.
         length (model_calls (snd (ai_lesson env b files))) = 4
         \<and> last (model_calls (snd (ai_lesson env b files))) = ModelCall request (Inr r)
         \<and> collectToolCalls r = Inr calls \<and> calls \<noteq> []
         \<longrightarrow> (\<exists>citations. fst (ai_lesson env b files)
                 = Completed (js_or (read_prop r ''output_text'') (JStr '''')) citations))"
proof -
  obtain res tr' where s: "session env b files = (res, tr')"
    by (cases "session env b files")
  note sb = session_bound [OF s]
  have a: "length (model_calls (snd (ai_lesson env b files))) \<le> 4"
    using sb s by (auto simp: ai_lesson_def split: sum.splits)
  have b: "length (model_calls (snd (generation_loop env ts resolved response toolCalls 0 tr)))
       \<le> length (model_calls tr) + 3"
    using generation_loop_trace [of env ts resolved response toolCalls 0 tr] by auto
  have c: "generation_loop env ts resolved response toolCalls 3 tr = (Inr response, tr)"
    by (simp add: generation_loop_stop)
  have d: "(\<exists>lessonText citations. fst (ai_lesson env b files) = Completed lessonText citations)
      \<or> (\<exists>e. fst (ai_lesson env b files) = Failed e)"
    by (cases "fst (ai_lesson env b files)") auto
  have e: "\<exists>citations. fst (ai_lesson env b files)
                 = Completed (js_or (read_prop r ''output_text'') (JStr '''')) citations"
    if h: "length (model_calls (snd (ai_lesson env b files))) = 4"
      "last (model_calls (snd (ai_lesson env b files))) = ModelCall request (Inr r)"
      "collectToolCalls r = Inr calls" "calls \<noteq> []"
    for request r calls
  proof -
    from h(1) have conf: "configured env"
      by (auto simp: ai_lesson_def split: if_splits)
    with s have tr: "snd (ai_lesson env b files) = tr'"
      by (auto simp: ai_lesson_def split: sum.splits)
    with sb h obtain citations where
      "res = Inr (js_or (read_prop r ''output_text'') (JStr ''''), citations)"
      by auto
    with conf s show ?thesis
      by (simp add: ai_lesson_def)
  qed
  from a b c d e show ?thesis by blast
qed

theorem generation_bounded_witness:
  "length (model_calls (snd (ai_lesson looping_env [] None))) = 4
   \<and> (\<exists>request. last (model_calls (snd (ai_lesson looping_env [] None)))
                  = ModelCall request (Inr looping_response))
   \<and> collectToolCalls looping_response = Inr [looping_call] \<and> [looping_call] \<noteq> []
   \<and> (\<exists>citations. fst (ai_lesson looping_env [] None) = Completed (JStr ''draft'') citations)"
proof -
  from looping_session obtain request0 request tr where
    s: "session looping_env [] None = (Inr (JStr ''draft'', JArr []), tr)"
    and tr: "model_calls tr = [ModelCall request0 (Inr looping_response),
               ModelCall request (Inr looping_response), ModelCall request (Inr looping_response),
               ModelCall request (Inr looping_response)]"
    by auto
  have conf: "configured looping_env"
    by (simp add: looping_env_def)
  from s conf have tr': "snd (ai_lesson looping_env [] None) = tr"
    by (simp add: ai_lesson_def)
  have n: "length (model_calls (snd (ai_lesson looping_env [] None))) = 4"
    by (simp add: tr' tr)
  have l: "last (model_calls (snd (ai_lesson looping_env [] None)))
             = ModelCall request (Inr looping_response)"
    by (simp add: tr' tr)
  have t: "read_prop looping_response ''output_text'' = JStr ''draft''"
    by (simp add: looping_response_def)
  from generation_bounded [of looping_env "[]" None] n l looping_collect
  have "\<exists>citations. fst (ai_lesson looping_env [] None)
          = Completed (js_or (read_prop looping_response ''output_text'') (JStr [])) citations"
    by blast
  then have "\<exists>citations. fst (ai_lesson looping_env [] None) = Completed (JStr ''draft'') citations"
    by (simp add: t js_or_def)
  with n l looping_collect show ?thesis
    by blast
qed

section \<open>The image search\<close>

lemma filter_e_total:
  assumes "\<And>x. x \<in> set xs \<Longrightarrow> p x = Inr (q x)"
  shows "filter_e p xs = Inr (filter q xs)"
  using assms by (induction xs) simp_all

lemma map_e_total:
  assumes "\<And>x. x \<in> set xs \<Longrightarrow> f x = Inr (g x)"
  shows "map_e f xs = Inr (map g xs)"
  using assms by (induction xs) simp_all

lemma documented_has_imageinfo:
  assumes "documented_page page"
  shows "has_imageinfo page = Inr (image_infos page \<noteq> [])"
proof -
  from assms obtain ps where p: "page = JObj ps"
    by (cases page) simp_all
  show ?thesis
    using assms unfolding p
    by (cases "read_prop (JObj ps) ''imageinfo''")
       (simp_all add: has_imageinfo_def get_prop_def bind_e_def opt_prop_def)
qed

lemma documented_image_result:
  assumes "documented_page page" and "image_infos page \<noteq> []"
  shows "image_result page
           = Inr (JObj [(''title'', read_prop page ''title''),
                        (''url'', read_prop (hd (image_infos page)) ''url''),
                        (''pageUrl'', JStr (''https://commons.wikimedia.org/wiki/''
                                            @ js_String (read_prop page ''title'')))])
         \<and> is_string (read_prop page ''title'')
         \<and> is_string (read_prop (hd (image_infos page)) ''url'')"
proof -
  from assms obtain ps where p: "page = JObj ps"
    by (cases page) simp_all
  from assms(1) have t: "is_string (read_prop (JObj ps) ''title'')"
    unfolding p by simp
  from assms(2) obtain info infos where i: "read_prop (JObj ps) ''imageinfo'' = JArr (info # infos)"
    unfolding p by (cases "read_prop (JObj ps) ''imageinfo''") (auto simp: neq_Nil_conv)
  with assms(1) have u: "is_string (read_prop info ''url'')"
    unfolding p by simp
  then have n: "\<not> nullish info"
    by (cases info) simp_all
  show ?thesis
    unfolding p using t i u n
    by (simp add: image_result_def get_prop_def get_index_def bind_e_def del: read_prop.simps)
qed

lemma complete_image_resultI:
  assumes "is_string t" and "is_string u"
  shows "complete_image_result (JObj [(''title'', t), (''url'', u), (''pageUrl'', JStr p)])"
proof -
  from assms obtain t' u' where "t = JStr t'" "u = JStr u'"
    by (cases t; cases u) simp_all
  then show ?thesis
    by simp
qed

lemma images_of_payload_pages:
  "images_of_payload payload
     = bind_e (filter_e has_imageinfo (payload_pages payload)) (map_e image_result)"
proof (cases "truthy (opt_prop (opt_prop payload ''query'') ''pages'')")
  case False
  then show ?thesis
    by (simp add: images_of_payload_def payload_pages_def bind_e_def)
next
  case True
  then have q: "\<not> nullish (opt_prop payload ''query'')"
    by (auto simp: opt_prop_def)
  then have p: "\<not> nullish payload"
    by (auto simp: opt_prop_def)
  from True have v: "\<not> nullish (opt_prop (opt_prop payload ''query'') ''pages'')"
    by (cases "opt_prop (opt_prop payload ''query'') ''pages''") simp_all
  from p q have g: "get_prop payload ''query'' = Inr (opt_prop payload ''query'')"
    "get_prop (opt_prop payload ''query'') ''pages'' = Inr (opt_prop (opt_prop payload ''query'') ''pages'')"
    by (simp_all add: get_prop_def opt_prop_def)
  from v obtain xs where "object_values (opt_prop (opt_prop payload ''query'') ''pages'') = Inr xs"
    by (cases "opt_prop (opt_prop payload ''query'') ''pages''") simp_all
  with True g show ?thesis
    by (simp add: images_of_payload_def payload_pages_def bind_e_def)
qed

text \<open>
  C9, as amended. When the media search replies with success and every page entry of the
  payload is as documented (a string title; image information, if any, a list of entries
  with a string url), the search returns one result for each page that has image
  information, in order, and each result has its three fields, all strings: the title of
  the page, the url of the first entry of its image information (there is one, the pages
  without any being filtered out first) and the page url.
\<close>

theorem image_results_complete:
  assumes "fetch env tr (searchParams query (if count = JUndefined then JNum 4 else count)) = Inr response"
    and "ok response"
    and "json response = Inr payload"
    and "list_all documented_page (payload_pages payload)"
  shows "fst (performImageSearch env tr query count)
           = Inr (map (\<lambda>page. JObj [(''title'', read_prop page ''title''),
                                    (''url'', read_prop (hd (image_infos page)) ''url''),
                                    (''pageUrl'', JStr (''https://commons.wikimedia.org/wiki/''
                                                        @ js_String (read_prop page ''title'')))])
                      (filter (\<lambda>page. image_infos page \<noteq> []) (payload_pages payload)))
         \<and> list_all complete_image_result
              (map (\<lambda>page. JObj [(''title'', read_prop page ''title''),
                                  (''url'', read_prop (hd (image_infos page)) ''url''),
                                  (''pageUrl'', JStr (''https://commons.wikimedia.org/wiki/''
                                                      @ js_String (read_prop page ''title'')))])
                   (filter (\<lambda>page. image_infos page \<noteq> []) (payload_pages payload)))"
proof -
  let ?pages = "payload_pages payload"
  let ?kept = "filter (\<lambda>page. image_infos page \<noteq> []) ?pages"
  let ?result = "\<lambda>page. JObj [(''title'', read_prop page ''title''),
                                (''url'', read_prop (hd (image_infos page)) ''url''),
                                (''pageUrl'', JStr (''https://commons.wikimedia.org/wiki/''
                                                    @ js_String (read_prop page ''title'')))]"
  from assms(4) have doc: "documented_page page" if "page \<in> set ?pages" for page
    using that by (simp add: list_all_iff)
  then have f: "filter_e has_imageinfo ?pages = Inr ?kept"
    by (intro filter_e_total documented_has_imageinfo)
  have r: "image_result page = Inr (?result page) \<and> complete_image_result (?result page)"
    if "page \<in> set ?kept" for page
  proof -
    from that have "documented_page page" "image_infos page \<noteq> []"
      using doc by simp_all
    from documented_image_result [OF this] show ?thesis
      by (simp only: complete_image_resultI simp_thms)
  qed
  then have m: "map_e image_result ?kept = Inr (map ?result ?kept)"
    by (intro map_e_total) simp
  have p: "fst (performImageSearch env tr query count) = Inr (map ?result ?kept)"
    using assms(1,2,3) f m
    by (simp add: performImageSearch_def search_result_def Let_def images_of_payload_pages bind_e_def
             del: read_prop.simps image_infos.simps)
  have c: "list_all complete_image_result (map ?result ?kept)"
    using r by (simp add: list_all_iff del: read_prop.simps image_infos.simps complete_image_result.simps)
  from p c show ?thesis
    by (rule conjI)
qed

theorem image_results_complete_witness:
  "fetch leaf_env [] (searchParams (JStr ''leaf'') (JNum 4)) = Inr \<lparr> ok = True, json = Inr leaf_payload \<rparr>
   \<and> list_all documented_page (payload_pages leaf_payload)
   \<and> fst (performImageSearch leaf_env [] (JStr ''leaf'') JUndefined)
       = Inr [JObj [(''title'', JStr ''File:Leaf.jpg''),
                    (''url'', JStr ''https://upload.example/Leaf.jpg''),
                    (''pageUrl'', JStr ''https://commons.wikimedia.org/wiki/File:Leaf.jpg'')]]
   \<and> list_all complete_image_result
        [JObj [(''title'', JStr ''File:Leaf.jpg''),
               (''url'', JStr ''https://upload.example/Leaf.jpg''),
               (''pageUrl'', JStr ''https://commons.wikimedia.org/wiki/File:Leaf.jpg'')]]"
proof -
  have f: "fetch leaf_env [] (searchParams (JStr ''leaf'') (if JUndefined = JUndefined then JNum 4 else JUndefined))
             = Inr \<lparr> ok = True, json = Inr leaf_payload \<rparr>"
    by (simp add: leaf_env_def)
  have pages: "payload_pages leaf_payload
      = [JObj [(''title'', JStr ''Leaf'')],
         JObj [(''title'', JStr ''File:Leaf.jpg''),
               (''imageinfo'', JArr [JObj [(''url'', JStr ''https://upload.example/Leaf.jpg'')]])]]"
    by (simp add: payload_pages_def leaf_payload_def opt_prop_def)
  have d: "list_all documented_page (payload_pages leaf_payload)"
    unfolding pages by simp
  from image_results_complete [OF f _ _ d]
  have "fst (performImageSearch leaf_env [] (JStr ''leaf'') JUndefined)
       = Inr [JObj [(''title'', JStr ''File:Leaf.jpg''),
                    (''url'', JStr ''https://upload.example/Leaf.jpg''),
                    (''pageUrl'', JStr ''https://commons.wikimedia.org/wiki/File:Leaf.jpg'')]]
   \<and> list_all complete_image_result
        [JObj [(''title'', JStr ''File:Leaf.jpg''),
               (''url'', JStr ''https://upload.example/Leaf.jpg''),
               (''pageUrl'', JStr ''https://commons.wikimedia.org/wiki/File:Leaf.jpg'')]]"
    unfolding pages by simp
  with f d show ?thesis
    by simp
qed

text \<open>
  C9, as stated, fails: when the first entry of the image information of a page has no
  \<^verbatim>\<open>url\<close> (here a file page whose file is missing), the search returns a result whose
  \<^verbatim>\<open>url\<close> is \<^verbatim>\<open>undefined\<close>.
\<close>

theorem image_result_without_url_counterexample:
  "fetch missing_file_env [] (searchParams (JStr ''leaf'') (JNum 4))
     = Inr \<lparr> ok = True, json = Inr missing_file_payload \<rparr>
   \<and> fst (performImageSearch missing_file_env [] (JStr ''leaf'') JUndefined)
     = Inr [JObj [(''title'', JStr ''File:Leaf.jpg''),
                  (''url'', JUndefined),
                  (''pageUrl'', JStr ''https://commons.wikimedia.org/wiki/File:Leaf.jpg'')]]
   \<and> \<not> complete_image_result
          (JObj [(''title'', JStr ''File:Leaf.jpg''),
                 (''url'', JUndefined),
                 (''pageUrl'', JStr ''https://commons.wikimedia.org/wiki/File:Leaf.jpg'')])"
  by (simp add: performImageSearch_def search_result_def missing_file_env_def looping_env_def
        missing_file_payload_def images_of_payload_def opt_prop_def get_prop_def get_index_def
        bind_e_def has_imageinfo_def image_result_def Let_def)

subsection \<open>A failed image search ends the session\<close>

lemma stops_same: "stops_at_failed_search tr (res, tr)"
  by (simp add: stops_at_failed_search_def)

lemma stops_Inl:
  assumes "stops_at_failed_search tr ((Inl e, tr1) :: (exn + 'a) \<times> event list)"
  shows "stops_at_failed_search tr ((Inl e, tr1) :: (exn + 'b) \<times> event list)"
  using assms by (simp add: stops_at_failed_search_def)

lemma stops_Inr:
  assumes "stops_at_failed_search tr (Inr x, tr1)"
  shows "\<exists>ext. tr1 = tr @ ext \<and> list_all (\<lambda>ev. \<not> search_failed ev) ext"
  using assms by (auto simp: stops_at_failed_search_def)

lemma stops_then:
  assumes "stops_at_failed_search tr (Inr x, tr1)" and "stops_at_failed_search tr1 out"
  shows "stops_at_failed_search tr out"
proof -
  from stops_Inr [OF assms(1)] obtain ext1 where
    e1: "tr1 = tr @ ext1" "list_all (\<lambda>ev. \<not> search_failed ev) ext1"
    by blast
  from assms(2) obtain ext2 where e2: "snd out = tr1 @ ext2"
    and d: "list_all (\<lambda>ev. \<not> search_failed ev) ext2
           \<or> (\<exists>pre params fetched e.
                 ext2 = pre @ [FetchCall params fetched]
                 \<and> list_all (\<lambda>ev. \<not> search_failed ev) pre
                 \<and> search_result fetched = Inl e \<and> fst out = Inl e)"
    unfolding stops_at_failed_search_def by blast
  from d show ?thesis
  proof
    assume "list_all (\<lambda>ev. \<not> search_failed ev) ext2"
    with e1 e2 have "snd out = tr @ (ext1 @ ext2) \<and> list_all (\<lambda>ev. \<not> search_failed ev) (ext1 @ ext2)"
      by simp
    then show ?thesis
      unfolding stops_at_failed_search_def by blast
  next
    assume "\<exists>pre params fetched e.
                 ext2 = pre @ [FetchCall params fetched]
                 \<and> list_all (\<lambda>ev. \<not> search_failed ev) pre
                 \<and> search_result fetched = Inl e \<and> fst out = Inl e"
    then obtain pre params fetched e where
      p: "ext2 = pre @ [FetchCall params fetched]" "list_all (\<lambda>ev. \<not> search_failed ev) pre"
        "search_result fetched = Inl e" "fst out = Inl e"
      by blast
    with e1 e2 have "snd out = tr @ (ext1 @ ext2)
        \<and> ext1 @ ext2 = (ext1 @ pre) @ [FetchCall params fetched]
        \<and> list_all (\<lambda>ev. \<not> search_failed ev) (ext1 @ pre)
        \<and> search_result fetched = Inl e \<and> fst out = Inl e"
      by simp
    then show ?thesis
      unfolding stops_at_failed_search_def by blast
  qed
qed

lemma stops_model_call:
  "stops_at_failed_search tr (res, tr @ [ModelCall request created])"
proof -
  have "list_all (\<lambda>ev. \<not> search_failed ev) [ModelCall request created]"
    by simp
  then show ?thesis
    unfolding stops_at_failed_search_def by (intro exI [of _ "[ModelCall request created]"]) simp
qed

lemma performImageSearch_stops:
  "stops_at_failed_search tr (performImageSearch env tr query count)"
proof -
  let ?params = "searchParams query (if count = JUndefined then JNum 4 else count)"
  let ?fetched = "fetch env tr ?params"
  have p: "performImageSearch env tr query count
             = (search_result ?fetched, tr @ [FetchCall ?params ?fetched])"
    by (simp add: performImageSearch_def Let_def)
  show ?thesis
  proof (cases "search_result ?fetched")
    case (Inl e)
    then have "snd (performImageSearch env tr query count) = tr @ [FetchCall ?params ?fetched]
        \<and> [FetchCall ?params ?fetched] = [] @ [FetchCall ?params ?fetched]
        \<and> list_all (\<lambda>ev. \<not> search_failed ev) []
        \<and> search_result ?fetched = Inl e \<and> fst (performImageSearch env tr query count) = Inl e"
      by (simp add: p)
    then show ?thesis
      unfolding stops_at_failed_search_def by blast
  next
    case (Inr images)
    then have "snd (performImageSearch env tr query count) = tr @ [FetchCall ?params ?fetched]
        \<and> list_all (\<lambda>ev. \<not> search_failed ev) [FetchCall ?params ?fetched]"
      by (simp add: p)
    then show ?thesis
      unfolding stops_at_failed_search_def by blast
  qed
qed

lemma tool_call_stops:
  "stops_at_failed_search tr (tool_call env resolved call tr)"
proof -
  have "tool_call env resolved call tr = (fst (tool_call env resolved call tr), tr)
        \<or> (\<exists>query count e. performImageSearch env tr query count = (Inl e, snd (tool_call env resolved call tr))
              \<and> fst (tool_call env resolved call tr) = Inl e)
        \<or> (\<exists>query count images. performImageSearch env tr query count = (Inr images, snd (tool_call env resolved call tr)))"
    by (auto simp: tool_call_def Let_def split: sum.splits prod.splits)
  then consider
    (same) "tool_call env resolved call tr = (fst (tool_call env resolved call tr), tr)"
  | (failed) query count e where
      "performImageSearch env tr query count = (Inl e, snd (tool_call env resolved call tr))"
      "fst (tool_call env resolved call tr) = Inl e"
  | (found) query count images where
      "performImageSearch env tr query count = (Inr images, snd (tool_call env resolved call tr))"
    by blast
  then show ?thesis
  proof cases
    case same
    then show ?thesis
      using stops_same [of tr "fst (tool_call env resolved call tr)"] by simp
  next
    case failed
    from performImageSearch_stops [of tr env query count] failed(1)
    have "stops_at_failed_search tr
            ((Inl e, snd (tool_call env resolved call tr)) :: (exn + jsval list) \<times> event list)"
      by simp
    from stops_Inl [OF this] failed(2) show ?thesis
      by (metis prod.collapse)
  next
    case found
    from performImageSearch_stops [of tr env query count] found
    have "stops_at_failed_search tr (Inr images, snd (tool_call env resolved call tr))"
      by simp
    from stops_Inr [OF this] obtain ext where
      "snd (tool_call env resolved call tr) = tr @ ext" "list_all (\<lambda>ev. \<not> search_failed ev) ext"
      by blast
    then show ?thesis
      unfolding stops_at_failed_search_def by blast
  qed
qed

lemma toolOutputs_stops:
  "stops_at_failed_search tr (toolOutputs env resolved calls outs tr)"
proof (induction calls arbitrary: outs tr)
  case Nil
  then show ?case by (simp add: stops_same)
next
  case (Cons call calls)
  obtain res tr1 where step: "tool_call env resolved call tr = (res, tr1)"
    by (cases "tool_call env resolved call tr")
  with tool_call_stops [of tr env resolved call]
  have s: "stops_at_failed_search tr (res, tr1)"
    by simp
  show ?case
  proof (cases res)
    case (Inl e)
    with s step stops_Inl [of tr e tr1] show ?thesis
      by simp
  next
    case (Inr out)
    with s have "stops_at_failed_search tr (Inr out, tr1)"
      by simp
    from stops_then [OF this Cons.IH [of tr1 "case out of None \<Rightarrow> outs | Some x \<Rightarrow> outs @ [x]"]]
    show ?thesis
      using step Inr by (cases out) simp_all
  qed
qed

lemma generation_round_stops:
  "stops_at_failed_search tr (generation_round env ts resolved response toolCalls tr)"
proof -
  obtain res tr1 where t: "toolOutputs env resolved toolCalls [] tr = (res, tr1)"
    by (cases "toolOutputs env resolved toolCalls [] tr")
  with toolOutputs_stops [of tr env resolved toolCalls "[]"]
  have s: "stops_at_failed_search tr (res, tr1)"
    by simp
  show ?thesis
  proof (cases res)
    case (Inl e)
    with s t stops_Inl [of tr e tr1] show ?thesis
      by (simp add: generation_round_def)
  next
    case (Inr outs)
    with s have s': "stops_at_failed_search tr (Inr outs, tr1)"
      by simp
    have "stops_at_failed_search tr1 (generation_round env ts resolved response toolCalls tr)"
      using t Inr
      by (auto simp: generation_round_def Let_def stops_same stops_model_call split: sum.splits)
    from stops_then [OF s' this] show ?thesis .
  qed
qed

lemma generation_loop_stops:
  "stops_at_failed_search tr (generation_loop env ts resolved response toolCalls c tr)"
proof (induction env ts resolved response toolCalls c tr rule: generation_loop.induct)
  case (1 env ts resolved response toolCalls c tr)
  show ?case
  proof (cases "length toolCalls \<noteq> 0 \<and> c < 3")
    case False
    then have "toolCalls = [] \<or> 3 \<le> c" by auto
    then show ?thesis
      by (simp add: generation_loop_stop stops_same)
  next
    case True
    then have go: "toolCalls \<noteq> []" "c < 3" by auto
    obtain res tr1 where r: "generation_round env ts resolved response toolCalls tr = (res, tr1)"
      by (cases "generation_round env ts resolved response toolCalls tr")
    with generation_round_stops [of tr env ts resolved response toolCalls]
    have s: "stops_at_failed_search tr (res, tr1)"
      by simp
    show ?thesis
    proof (cases res)
      case (Inl e)
      with s r stops_Inl [of tr e tr1] show ?thesis
        by (simp add: generation_loop_step [OF go])
    next
      case (Inr p)
      obtain response' toolCalls' where p: "p = (response', toolCalls')"
        by (cases p)
      from s Inr have s': "stops_at_failed_search tr (Inr p, tr1)"
        by simp
      from stops_then [OF s' "1.IH" [OF True r [symmetric] Inr p [symmetric]]]
      show ?thesis
        using r Inr p by (simp add: generation_loop_step [OF go])
    qed
  qed
qed

lemma session_stops: "stops_at_failed_search [] (session env b files)"
proof (cases "resolvedImageQuery b")
  case (Inl e)
  then show ?thesis by (simp add: session_def stops_same)
next
  case (Inr resolved)
  let ?ts = "JArr (tools (field b ''includeWebSearch''))"
  let ?request = "first_request systemPrompt (userPrompt b (contextFromFiles env files) resolved) ?ts"
  let ?created = "responses_create env [] ?request"
  have first: "stops_at_failed_search [] (res, [ModelCall ?request ?created])" for res :: "exn + 'a"
    using stops_model_call [of "[]" res ?request ?created] by simp
  show ?thesis
  proof (cases ?created)
    case (Inl e)
    with Inr first show ?thesis by (simp add: session_def Let_def)
  next
    case created: (Inr response)
    show ?thesis
    proof (cases "collectToolCalls response")
      case (Inl e)
      with Inr created first show ?thesis by (simp add: session_def Let_def)
    next
      case calls: (Inr toolCalls)
      obtain lres ltr where
        l: "generation_loop env ?ts resolved response toolCalls 0 [ModelCall ?request (Inr response)]
              = (lres, ltr)"
        by (cases "generation_loop env ?ts resolved response toolCalls 0
                     [ModelCall ?request (Inr response)]")
      with generation_loop_stops [of "[ModelCall ?request (Inr response)]" env ?ts resolved response toolCalls 0]
      have s: "stops_at_failed_search [ModelCall ?request (Inr response)] (lres, ltr)"
        by simp
      have f: "stops_at_failed_search [] (Inr (), [ModelCall ?request (Inr response)])"
        using first [of "Inr ()"] created by simp
      show ?thesis
      proof (cases lres)
        case (Inl e)
        with s have "stops_at_failed_search [ModelCall ?request (Inr response)]
                       ((Inl e, ltr) :: (exn + jsval \<times> jsval) \<times> event list)"
          using stops_Inl by blast
        from stops_then [OF f this] show ?thesis
          using Inr created calls l Inl by (simp add: session_def Let_def)
      next
        case last: (Inr last_response)
        with s have "stops_at_failed_search [ModelCall ?request (Inr response)] (Inr last_response, ltr)"
          by simp
        from stops_Inr [OF this] obtain ext where
          "ltr = [ModelCall ?request (Inr response)] @ ext" "list_all (\<lambda>ev. \<not> search_failed ev) ext"
          by blast
        then have "stops_at_failed_search [ModelCall ?request (Inr response)] (final_reply last_response, ltr)"
          unfolding stops_at_failed_search_def by auto
        from stops_then [OF f this] show ?thesis
          using Inr created calls l last by (simp add: session_def Let_def)
      qed
    qed
  qed
qed

lemma failed_search_is_last:
  assumes "stops_at_failed_search [] (res, tr)"
    and "tr = pre @ FetchCall params fetched # post"
    and "search_result fetched = Inl e"
  shows "post = [] \<and> res = Inl e"
proof -
  from assms(3) have bad: "search_failed (FetchCall params fetched)"
    by simp
  from assms(1) have "list_all (\<lambda>ev. \<not> search_failed ev) tr
           \<or> (\<exists>pre' params' fetched' e'.
                 tr = pre' @ [FetchCall params' fetched']
                 \<and> list_all (\<lambda>ev. \<not> search_failed ev) pre'
                 \<and> search_result fetched' = Inl e' \<and> res = Inl e')"
    by (auto simp: stops_at_failed_search_def)
  then show ?thesis
  proof
    assume "list_all (\<lambda>ev. \<not> search_failed ev) tr"
    with assms(2) bad show ?thesis
      by simp
  next
    assume "\<exists>pre' params' fetched' e'.
                 tr = pre' @ [FetchCall params' fetched']
                 \<and> list_all (\<lambda>ev. \<not> search_failed ev) pre'
                 \<and> search_result fetched' = Inl e' \<and> res = Inl e'"
    then obtain pre' params' fetched' e' where
      l: "tr = pre' @ [FetchCall params' fetched']" "list_all (\<lambda>ev. \<not> search_failed ev) pre'"
        "search_result fetched' = Inl e'" "res = Inl e'"
      by blast
    show ?thesis
    proof (cases post rule: rev_cases)
      case Nil
      with assms(2) l(1) have "fetched = fetched'"
        by simp
      with assms(3) l(3,4) Nil show ?thesis
        by simp
    next
      case (snoc post' ev)
      with assms(2) l(1) have "pre' = pre @ FetchCall params fetched # post'"
        by simp
      with l(2) bad show ?thesis
        by simp
    qed
  qed
qed

text \<open>The session in which the model service asks for an image search and the media search is unavailable.\<close>

lemma unavailable_tool_call:
  "tool_call unavailable_env resolved looping_call tr
     = (Inl (Error ''Image search failed.''),
        tr @ [FetchCall (searchParams resolved (JNum 4)) (Inr \<lparr> ok = False, json = Inr JNull \<rparr>)])"
  by (simp add: tool_call_def looping_call_def get_prop_def call_arguments_def unavailable_env_def
        looping_env_def performImageSearch_def search_result_def Let_def)

lemma unavailable_session:
  "\<exists>request.
     session unavailable_env [] None
       = (Inl (Error ''Image search failed.''),
          [ModelCall request (Inr looping_response),
           FetchCall (searchParams (JStr ''lesson classroom illustration'') (JNum 4))
                     (Inr \<lparr> ok = False, json = Inr JNull \<rparr>)])"
proof -
  have q: "resolvedImageQuery [] = Inr (JStr ''lesson classroom illustration'')"
    by (simp add: resolvedImageQuery_def field_def opt_trim_def js_or_def)
  have create: "responses_create unavailable_env tr1 request = Inr looping_response" for tr1 request
    by (simp add: unavailable_env_def looping_env_def)
  have round: "generation_round unavailable_env ts resolved looping_response [looping_call] tr
     = (Inl (Error ''Image search failed.''),
        tr @ [FetchCall (searchParams resolved (JNum 4)) (Inr \<lparr> ok = False, json = Inr JNull \<rparr>)])"
    for ts resolved tr
    by (simp add: generation_round_def unavailable_tool_call)
  have loop: "generation_loop unavailable_env ts resolved looping_response [looping_call] 0 tr
     = (Inl (Error ''Image search failed.''),
        tr @ [FetchCall (searchParams resolved (JNum 4)) (Inr \<lparr> ok = False, json = Inr JNull \<rparr>)])"
    for ts resolved tr
    by (simp add: generation_loop_step round)
  show ?thesis
    by (simp add: session_def q create looping_collect loop Let_def)
qed

text \<open>
  C4, as amended. The image search fails with the error \<^verbatim>\<open>Image search failed.\<close> whenever
  the media search replies with a status that is not a success. Whatever makes an image
  search fail (that status, a rejected request, a body that is not JSON, a page entry that
  cannot be read), the failed search is the last call the request makes (no call is
  repeated, no further round is started) and the request fails with the error of the
  search, which the reply carries as its one message.
\<close>

theorem image_search_failure_is_fatal:
  "(\<forall>response.
      fetch env tr (searchParams query (if count = JUndefined then JNum 4 else count)) = Inr response
      \<and> \<not> ok response
      \<longrightarrow> fst (performImageSearch env tr query count) = Inl (Error ''Image search failed.''))
   \<and> (\<forall>pre params fetched post e.
        snd (ai_lesson env b files) = pre @ FetchCall params fetched # post
        \<and> search_result fetched = Inl e
        \<longrightarrow> post = [] \<and> fst (ai_lesson env b files) = Failed e)
   \<and> (\<forall>pre params response post.
        snd (ai_lesson env b files) = pre @ FetchCall params (Inr response) # post
        \<and> \<not> ok response
        \<longrightarrow> post = [] \<and> fst (ai_lesson env b files) = Failed (Error ''Image search failed.''))"
proof -
  have a: "fst (performImageSearch env tr query count) = Inl (Error ''Image search failed.'')"
    if "fetch env tr (searchParams query (if count = JUndefined then JNum 4 else count)) = Inr response"
      "\<not> ok response" for response
    using that by (simp add: performImageSearch_def search_result_def Let_def)
  have b: "post = [] \<and> fst (ai_lesson env b files) = Failed e"
    if h: "snd (ai_lesson env b files) = pre @ FetchCall params fetched # post"
      "search_result fetched = Inl e" for pre params fetched post e
  proof -
    obtain res tr' where s: "session env b files = (res, tr')"
      by (cases "session env b files")
    from h(1) have conf: "configured env"
      by (auto simp: ai_lesson_def split: if_splits)
    with s have tr': "snd (ai_lesson env b files) = tr'"
      by (auto simp: ai_lesson_def split: sum.splits)
    from session_stops [of env b files] s have "stops_at_failed_search [] (res, tr')"
      by simp
    from failed_search_is_last [OF this h(1) [unfolded tr'] h(2)]
    have "post = []" "res = Inl e"
      by simp_all
    with conf s show ?thesis
      by (simp add: ai_lesson_def)
  qed
  have c: "post = [] \<and> fst (ai_lesson env b files) = Failed (Error ''Image search failed.'')"
    if h: "snd (ai_lesson env b files) = pre @ FetchCall params (Inr response) # post"
      "\<not> ok response" for pre params response post
  proof -
    from h(2) have "search_result (Inr response) = Inl (Error ''Image search failed.'')"
      by (simp add: search_result_def)
    from b [OF h(1) this] show ?thesis .
  qed
  from a b c show ?thesis
    by blast
qed

theorem image_search_failure_is_fatal_witness:
  "fetch unavailable_env [] (searchParams (JStr ''leaf'') (JNum 4)) = Inr \<lparr> ok = False, json = Inr JNull \<rparr>
   \<and> \<not> ok \<lparr> ok = False, json = Inr JNull \<rparr>
   \<and> fst (performImageSearch unavailable_env [] (JStr ''leaf'') JUndefined) = Inl (Error ''Image search failed.'')
   \<and> (\<exists>request.
        snd (ai_lesson unavailable_env [] None)
          = [ModelCall request (Inr looping_response)]
            @ FetchCall (searchParams (JStr ''lesson classroom illustration'') (JNum 4))
                        (Inr \<lparr> ok = False, json = Inr JNull \<rparr>) # [])
   \<and> fst (ai_lesson unavailable_env [] None) = Failed (Error ''Image search failed.'')"
proof -
  let ?response = "\<lparr> ok = False, json = Inr JNull \<rparr>"
  note t = image_search_failure_is_fatal [of unavailable_env "[]" "JStr ''leaf''" JUndefined "[]" None]
  have f: "fetch unavailable_env [] (searchParams (JStr ''leaf'') (if JUndefined = JUndefined then JNum 4 else JUndefined))
             = Inr ?response"
    by (simp add: unavailable_env_def)
  have n: "\<not> ok ?response"
    by simp
  from conjunct1 [OF t] f n
  have a: "fst (performImageSearch unavailable_env [] (JStr ''leaf'') JUndefined)
             = Inl (Error ''Image search failed.'')"
    by blast
  from unavailable_session obtain request where
    s: "session unavailable_env [] None
       = (Inl (Error ''Image search failed.''),
          [ModelCall request (Inr looping_response),
           FetchCall (searchParams (JStr ''lesson classroom illustration'') (JNum 4)) (Inr ?response)])"
    by blast
  have conf: "configured unavailable_env"
    by (simp add: unavailable_env_def looping_env_def)
  from s conf have tr: "snd (ai_lesson unavailable_env [] None)
          = [ModelCall request (Inr looping_response)]
            @ FetchCall (searchParams (JStr ''lesson classroom illustration'') (JNum 4)) (Inr ?response) # []"
    by (simp add: ai_lesson_def)
  from conjunct2 [OF conjunct2 [OF t]] tr n
  have b: "fst (ai_lesson unavailable_env [] None) = Failed (Error ''Image search failed.'')"
    by blast
  have "search_result (Inr ?response) = Inl (Error ''Image search failed.'')"
    by (simp add: search_result_def)
  with conjunct1 [OF conjunct2 [OF t]] tr
  have "fst (ai_lesson unavailable_env [] None) = Failed (Error ''Image search failed.'')"
    by blast
  from f a tr b show ?thesis
    by auto
qed

text \<open>
  C4, as stated, fails in one direction: the image search also fails when the request to
  the media search is rejected, and when the reply has a success status and a body that
  is not JSON. No status that is not a success was received in either case.
\<close>

theorem image_search_fails_without_status_counterexample:
  "fetch rejecting_env [] (searchParams (JStr ''leaf'') (JNum 4)) = Inl (Error ''fetch failed'')
   \<and> fst (performImageSearch rejecting_env [] (JStr ''leaf'') JUndefined) = Inl (Error ''fetch failed'')
   \<and> fetch not_json_env [] (searchParams (JStr ''leaf'') (JNum 4))
       = Inr \<lparr> ok = True, json = Inl (Error ''Unexpected token'') \<rparr>
   \<and> fst (performImageSearch not_json_env [] (JStr ''leaf'') JUndefined) = Inl (Error ''Unexpected token'')"
  by (simp add: performImageSearch_def search_result_def rejecting_env_def not_json_env_def Let_def)

subsection \<open>Arguments that cannot be parsed\<close>




subsection \<open>One tool output for each recognized call\<close>











subsection \<open>The tools passed to the model service\<close>

lemma carries_tools_fetches:
  assumes "model_calls ext = []"
  shows "list_all (carries_tools ts) ext"
  using assms
proof (induction ext)
  case Nil
  then show ?case by simp
next
  case (Cons ev ext)
  then show ?case by (cases ev) simp_all
qed

lemma continuation_tools: "read_prop (continuation previous ts outs) ''tools'' = ts"
  by (simp add: continuation_def)

lemma first_request_tools: "read_prop (first_request system user ts) ''tools'' = ts"
  by (simp add: first_request_def)

lemma generation_round_tools:
  "\<exists>ext. snd (generation_round env ts resolved response toolCalls tr) = tr @ ext
         \<and> list_all (carries_tools ts) ext"
proof -
  obtain res tr1 where t: "toolOutputs env resolved toolCalls [] tr = (res, tr1)"
    by (cases "toolOutputs env resolved toolCalls [] tr")
  with toolOutputs_trace [of env resolved toolCalls "[]" tr]
  obtain ext where ext: "tr1 = tr @ ext" "model_calls ext = []"
    by auto
  from carries_tools_fetches [OF ext(2)] have "list_all (carries_tools ts) ext" .
  with ext(1) t show ?thesis
    by (auto simp: generation_round_def Let_def continuation_tools split: sum.splits
             simp del: read_prop.simps)
qed

lemma generation_loop_tools:
  "\<exists>ext. snd (generation_loop env ts resolved response toolCalls c tr) = tr @ ext
         \<and> list_all (carries_tools ts) ext"
proof (induction env ts resolved response toolCalls c tr rule: generation_loop.induct)
  case (1 env ts resolved response toolCalls c tr)
  show ?case
  proof (cases "length toolCalls \<noteq> 0 \<and> c < 3")
    case False
    then have "toolCalls = [] \<or> 3 \<le> c" by auto
    then show ?thesis
      by (simp add: generation_loop_stop)
  next
    case True
    then have go: "toolCalls \<noteq> []" "c < 3" by auto
    obtain res tr' where r: "generation_round env ts resolved response toolCalls tr = (res, tr')"
      by (cases "generation_round env ts resolved response toolCalls tr")
    with generation_round_tools [of env ts resolved response toolCalls tr]
    obtain ext where ext: "tr' = tr @ ext" "list_all (carries_tools ts) ext"
      by auto
    show ?thesis
    proof (cases res)
      case (Inl e)
      with r ext show ?thesis
        by (simp add: generation_loop_step [OF go])
    next
      case (Inr p)
      obtain response' toolCalls' where p: "p = (response', toolCalls')"
        by (cases p)
      from "1.IH" [OF True r [symmetric] Inr p [symmetric]]
      obtain ext' where
        "snd (generation_loop env ts resolved response' toolCalls' (c + 1) tr') = tr' @ ext'"
        "list_all (carries_tools ts) ext'"
        by blast
      with r ext Inr p show ?thesis
        by (simp add: generation_loop_step [OF go])
    qed
  qed
qed

lemma session_tools:
  "list_all (carries_tools (JArr (tools (field b ''includeWebSearch'')))) (snd (session env b files))"
proof (cases "resolvedImageQuery b")
  case (Inl e)
  then show ?thesis by (simp add: session_def)
next
  case (Inr resolved)
  let ?ts = "JArr (tools (field b ''includeWebSearch''))"
  let ?request = "first_request systemPrompt (userPrompt b (contextFromFiles env files) resolved) ?ts"
  let ?created = "responses_create env [] ?request"
  have first: "carries_tools ?ts (ModelCall ?request created)" for created
    by (simp add: first_request_tools del: read_prop.simps)
  show ?thesis
  proof (cases ?created)
    case (Inl e)
    with Inr first show ?thesis
      by (simp add: session_def Let_def del: carries_tools.simps)
  next
    case created: (Inr response)
    show ?thesis
    proof (cases "collectToolCalls response")
      case (Inl e)
      with Inr created first show ?thesis
        by (simp add: session_def Let_def del: carries_tools.simps)
    next
      case calls: (Inr toolCalls)
      from generation_loop_tools
        [of env ?ts resolved response toolCalls 0 "[ModelCall ?request (Inr response)]"]
      obtain ext where
        "snd (generation_loop env ?ts resolved response toolCalls 0 [ModelCall ?request (Inr response)])
           = [ModelCall ?request (Inr response)] @ ext"
        "list_all (carries_tools ?ts) ext"
        by blast
      with Inr created calls first show ?thesis
        by (auto simp: session_def Let_def split: sum.splits prod.splits
                 simp del: carries_tools.simps)
    qed
  qed
qed

text \<open>
  C5, as amended. The tools passed to the model service are, in this order, the web search,
  present if and only if the request field \<^verbatim>\<open>includeWebSearch\<close> is the string \<^verbatim>\<open>"true"\<close>,
  and the image search, always present, whose parameters require \<^verbatim>\<open>query\<close> and give
  \<^verbatim>\<open>count\<close> the default 4. Every call of the model service that a request makes carries
  this same list.
\<close>

theorem tools_fixed_for_session:
  "tools includeWebSearch
     = (if includeWebSearch = JStr ''true'' then [JObj [(''type'', JStr ''web_search'')]] else [])
       @ [image_search_tool]
   \<and> (JObj [(''type'', JStr ''web_search'')] \<in> set (tools includeWebSearch))
       = (includeWebSearch = JStr ''true'')
   \<and> last (tools includeWebSearch) = image_search_tool
   \<and> read_prop image_search_tool ''name'' = JStr ''image_search''
   \<and> read_prop (read_prop image_search_tool ''parameters'') ''required'' = JArr [JStr ''query'']
   \<and> read_prop (read_prop (read_prop (read_prop image_search_tool ''parameters'') ''properties'')
                  ''count'') ''default'' = JNum 4
   \<and> (\<forall>request created.
         ModelCall request created \<in> set (snd (ai_lesson env b files))
         \<longrightarrow> read_prop request ''tools'' = JArr (tools (field b ''includeWebSearch'')))"
proof -
  have a: "tools includeWebSearch
     = (if includeWebSearch = JStr ''true'' then [JObj [(''type'', JStr ''web_search'')]] else [])
       @ [image_search_tool]"
    by (simp add: tools_def)
  have b: "(JObj [(''type'', JStr ''web_search'')] \<in> set (tools includeWebSearch))
       = (includeWebSearch = JStr ''true'')"
    by (simp add: tools_def image_search_tool_def)
  have c: "last (tools includeWebSearch) = image_search_tool"
    by (simp add: tools_def)
  have d: "read_prop image_search_tool ''name'' = JStr ''image_search''"
    "read_prop (read_prop image_search_tool ''parameters'') ''required'' = JArr [JStr ''query'']"
    "read_prop (read_prop (read_prop (read_prop image_search_tool ''parameters'') ''properties'')
                  ''count'') ''default'' = JNum 4"
    by (simp_all add: image_search_tool_def)
  have e: "read_prop request ''tools'' = JArr (tools (field b ''includeWebSearch''))"
    if h: "ModelCall request created \<in> set (snd (ai_lesson env b files))" for request created
  proof -
    from h have conf: "configured env"
      by (auto simp: ai_lesson_def split: if_splits)
    then have "snd (ai_lesson env b files) = snd (session env b files)"
      by (auto simp: ai_lesson_def split: sum.splits prod.splits)
    with h session_tools [of b env files]
    have "carries_tools (JArr (tools (field b ''includeWebSearch''))) (ModelCall request created)"
      by (simp add: list_all_iff del: carries_tools.simps)
    then show ?thesis
      by simp
  qed
  from a b c d e show ?thesis
    by blast
qed

theorem tools_fixed_for_session_witness:
  "tools (JStr ''true'') = [JObj [(''type'', JStr ''web_search'')], image_search_tool]
   \<and> JObj [(''type'', JStr ''web_search'')] \<in> set (tools (JStr ''true''))
   \<and> (\<exists>request created.
         ModelCall request created \<in> set (snd (ai_lesson looping_env [] None))
         \<and> read_prop request ''tools'' = JArr (tools (field [] ''includeWebSearch''))
         \<and> tools (field [] ''includeWebSearch'') = [image_search_tool])"
proof -
  note t = tools_fixed_for_session [of "JStr ''true''" looping_env "[]" None]
  from conjunct1 [OF t] have a: "tools (JStr ''true'') = [JObj [(''type'', JStr ''web_search'')], image_search_tool]"
    by simp
  from conjunct1 [OF conjunct2 [OF t]] have b: "JObj [(''type'', JStr ''web_search'')] \<in> set (tools (JStr ''true''))"
    by simp
  from looping_session obtain request0 tr where
    s: "session looping_env [] None = (Inr (JStr ''draft'', JArr []), ModelCall request0 (Inr looping_response) # tr)"
    by blast
  have conf: "configured looping_env"
    by (simp add: looping_env_def)
  from s conf have m: "ModelCall request0 (Inr looping_response) \<in> set (snd (ai_lesson looping_env [] None))"
    by (simp add: ai_lesson_def)
  from t m have r: "read_prop request0 ''tools'' = JArr (tools (field [] ''includeWebSearch''))"
    by blast
  have "tools (field [] ''includeWebSearch'') = [image_search_tool]"
    by (simp add: tools_def field_def)
  with a b m r show ?thesis
    by blast
qed

text \<open>
  C5, as stated, fails: with the boolean \<^verbatim>\<open>true\<close> for \<^verbatim>\<open>includeWebSearch\<close> (a JSON body)
  the web search is not among the tools; the handler compares the field with the string
  \<^verbatim>\<open>"true"\<close>.
\<close>

theorem boolean_flag_without_web_search_counterexample:
  "field [(''includeWebSearch'', JBool True)] ''includeWebSearch'' = JBool True
   \<and> tools (field [(''includeWebSearch'', JBool True)] ''includeWebSearch'') = [image_search_tool]
   \<and> JObj [(''type'', JStr ''web_search'')] \<notin> set (tools (JBool True))"
  by (simp add: tools_def field_def image_search_tool_def)

subsection \<open>The scenarios of the specification\<close>

lemma final_reply_response:
  assumes "\<not> nullish r"
  shows "\<exists>citations. final_reply r = Inr (js_or (read_prop r ''output_text'') (JStr []), citations)"
  using assms by (simp add: final_reply_def get_prop_def bind_e_def Let_def)

text \<open>
  C8. When the first response of the model service has one call of the image search with
  the arguments \<^verbatim>\<open>{query: "leaf cells", count: 2}\<close>, the media search answers that search
  and the second response has no tool call, the request makes exactly three calls: the
  first call of the model service, one image search with \<^verbatim>\<open>gsrsearch = leaf cells\<close> and
  \<^verbatim>\<open>gsrlimit = 2\<close>, and the second call of the model service, with the one tool output; it
  completes with the text of the second response. When the first response has no tool
  call, the request makes that one call of the model service, no image search, and
  completes with the text of the first response.
\<close>

theorem image_search_scenario:
  fixes env :: env and b :: body and files :: "upload_file list option"
  defines "ts \<equiv> JArr (tools (field b ''includeWebSearch''))"
  assumes "configured env"
    and "resolvedImageQuery b = Inr resolved"
    and "responses_create env []
           (first_request systemPrompt (userPrompt b (contextFromFiles env files) resolved) ts)
         = Inr r0"
  shows "(collectToolCalls r0 = Inr [] \<and> \<not> nullish r0
          \<longrightarrow> (\<exists>citations.
                 ai_lesson env b files
                   = (Completed (js_or (read_prop r0 ''output_text'') (JStr [])) citations,
                      [ModelCall (first_request systemPrompt
                                    (userPrompt b (contextFromFiles env files) resolved) ts)
                                 (Inr r0)])))
         \<and> (\<forall>call response images r1.
               collectToolCalls r0 = Inr [call]
               \<and> recognized call
               \<and> call_arguments env resolved call
                   = JObj [(''query'', JStr ''leaf cells''), (''count'', JNum 2)]
               \<and> fetch env
                    [ModelCall (first_request systemPrompt
                                  (userPrompt b (contextFromFiles env files) resolved) ts)
                               (Inr r0)]
                    (searchParams (JStr ''leaf cells'') (JNum 2)) = Inr response
               \<and> search_result (Inr response) = Inr images
               \<and> responses_create env
                    [ModelCall (first_request systemPrompt
                                  (userPrompt b (contextFromFiles env files) resolved) ts)
                               (Inr r0),
                     FetchCall (searchParams (JStr ''leaf cells'') (JNum 2)) (Inr response)]
                    (continuation (read_prop r0 ''id'') ts
                       [tool_output env (read_prop call ''call_id'') images])
                   = Inr r1
               \<and> collectToolCalls r1 = Inr [] \<and> \<not> nullish r1
               \<longrightarrow> (\<exists>citations.
                      ai_lesson env b files
                        = (Completed (js_or (read_prop r1 ''output_text'') (JStr [])) citations,
                           [ModelCall (first_request systemPrompt
                                         (userPrompt b (contextFromFiles env files) resolved) ts)
                                      (Inr r0),
                            FetchCall (searchParams (JStr ''leaf cells'') (JNum 2)) (Inr response),
                            ModelCall (continuation (read_prop r0 ''id'') ts
                                         [tool_output env (read_prop call ''call_id'') images])
                                      (Inr r1)])))
         \<and> map_of (searchParams (JStr ''leaf cells'') (JNum 2)) ''gsrsearch'' = Some ''leaf cells''
         \<and> map_of (searchParams (JStr ''leaf cells'') (JNum 2)) ''gsrlimit'' = Some ''2''"
proof -
  let ?request0 = "first_request systemPrompt (userPrompt b (contextFromFiles env files) resolved) ts"
  let ?tr0 = "[ModelCall ?request0 (Inr r0)]"
  have start: "session env b files
      = (case collectToolCalls r0 of
           Inl e \<Rightarrow> (Inl e, ?tr0)
         | Inr toolCalls \<Rightarrow>
             (case generation_loop env ts resolved r0 toolCalls 0 ?tr0 of
                (Inl e, tr') \<Rightarrow> (Inl e, tr')
              | (Inr last_response, tr') \<Rightarrow> (final_reply last_response, tr')))"
    using assms(3,4) by (simp add: session_def Let_def ts_def split: sum.splits)
  have none: "\<exists>citations.
                 ai_lesson env b files
                   = (Completed (js_or (read_prop r0 ''output_text'') (JStr [])) citations, ?tr0)"
    if h: "collectToolCalls r0 = Inr []" "\<not> nullish r0"
  proof -
    from final_reply_response [OF h(2)] obtain citations where
      "final_reply r0 = Inr (js_or (read_prop r0 ''output_text'') (JStr []), citations)"
      by blast
    with h(1) assms(2) show ?thesis
      by (simp add: ai_lesson_def start generation_loop_stop)
  qed
  have one: "\<exists>citations.
                      ai_lesson env b files
                        = (Completed (js_or (read_prop r1 ''output_text'') (JStr [])) citations,
                           [ModelCall ?request0 (Inr r0),
                            FetchCall (searchParams (JStr ''leaf cells'') (JNum 2)) (Inr response),
                            ModelCall (continuation (read_prop r0 ''id'') ts
                                         [tool_output env (read_prop call ''call_id'') images])
                                      (Inr r1)])"
    if h: "collectToolCalls r0 = Inr [call]" "recognized call"
      "call_arguments env resolved call = JObj [(''query'', JStr ''leaf cells''), (''count'', JNum 2)]"
      "fetch env ?tr0 (searchParams (JStr ''leaf cells'') (JNum 2)) = Inr response"
      "search_result (Inr response) = Inr images"
      "responses_create env
         [ModelCall ?request0 (Inr r0),
          FetchCall (searchParams (JStr ''leaf cells'') (JNum 2)) (Inr response)]
         (continuation (read_prop r0 ''id'') ts [tool_output env (read_prop call ''call_id'') images])
       = Inr r1"
      "collectToolCalls r1 = Inr []" "\<not> nullish r1"
    for call response images r1
  proof -
    from h(2) have name: "get_prop call ''name'' = Inr (JStr ''image_search'')"
      by (simp add: recognized_def)
    then have "\<not> nullish call"
      by (auto simp: get_prop_def split: if_splits)
    then have id: "get_prop call ''call_id'' = Inr (read_prop call ''call_id'')"
      by (simp add: get_prop_def)
    have search: "performImageSearch env ?tr0 (JStr ''leaf cells'') (JNum 2)
        = (Inr images, ?tr0 @ [FetchCall (searchParams (JStr ''leaf cells'') (JNum 2)) (Inr response)])"
      using h(4,5) by (simp add: performImageSearch_def Let_def)
    have call: "tool_call env resolved call ?tr0
        = (Inr (Some (tool_output env (read_prop call ''call_id'') images)),
           ?tr0 @ [FetchCall (searchParams (JStr ''leaf cells'') (JNum 2)) (Inr response)])"
    proof -
      have q: "get_prop (JObj [(''query'', JStr ''leaf cells''), (''count'', JNum 2)]) ''query''
                 = Inr (JStr ''leaf cells'')"
        and c: "get_prop (JObj [(''query'', JStr ''leaf cells''), (''count'', JNum 2)]) ''count''
                 = Inr (JNum 2)"
        by (simp_all add: get_prop_def)
      show ?thesis
        by (simp add: tool_call_def name h(3) q c search id Let_def)
    qed
    from h(1) collectToolCalls_nullish [of r0] have "\<not> nullish r0"
      by auto
    then have rid: "get_prop r0 ''id'' = Inr (read_prop r0 ''id'')"
      by (simp add: get_prop_def)
    have round: "generation_round env ts resolved r0 [call] ?tr0
        = (Inr (r1, []),
           [ModelCall ?request0 (Inr r0),
            FetchCall (searchParams (JStr ''leaf cells'') (JNum 2)) (Inr response),
            ModelCall (continuation (read_prop r0 ''id'') ts
                         [tool_output env (read_prop call ''call_id'') images])
                      (Inr r1)])"
      using h(6,7) by (simp add: generation_round_def call rid Let_def del: read_prop.simps)
    have loop: "generation_loop env ts resolved r0 [call] 0 ?tr0
        = (Inr r1,
           [ModelCall ?request0 (Inr r0),
            FetchCall (searchParams (JStr ''leaf cells'') (JNum 2)) (Inr response),
            ModelCall (continuation (read_prop r0 ''id'') ts
                         [tool_output env (read_prop call ''call_id'') images])
                      (Inr r1)])"
      by (simp add: generation_loop_step round generation_loop_stop del: read_prop.simps)
    from final_reply_response [OF h(8)] obtain citations where
      "final_reply r1 = Inr (js_or (read_prop r1 ''output_text'') (JStr []), citations)"
      by blast
    with h(1) assms(2) show ?thesis
      by (simp add: ai_lesson_def start loop del: read_prop.simps)
  qed
  have params: "map_of (searchParams (JStr ''leaf cells'') (JNum 2)) ''gsrsearch'' = Some ''leaf cells''"
    "map_of (searchParams (JStr ''leaf cells'') (JNum 2)) ''gsrlimit'' = Some ''2''"
    by (simp_all add: searchParams_def string_of_int_def string_of_nat.simps)
  from none one params show ?thesis
    by blast
qed

theorem image_search_scenario_witness:
  "configured leaf_scenario_env
   \<and> resolvedImageQuery [] = Inr (JStr ''lesson classroom illustration'')
   \<and> collectToolCalls leaf_response = Inr [leaf_call]
   \<and> recognized leaf_call
   \<and> call_arguments leaf_scenario_env (JStr ''lesson classroom illustration'') leaf_call
       = JObj [(''query'', JStr ''leaf cells''), (''count'', JNum 2)]
   \<and> collectToolCalls lesson_response = Inr [] \<and> \<not> nullish lesson_response
   \<and> (\<exists>citations images.
         ai_lesson leaf_scenario_env [] None
           = (Completed (JStr ''# Leaf cells'') citations,
              [ModelCall (first_request systemPrompt
                            (userPrompt [] (contextFromFiles leaf_scenario_env None)
                               (JStr ''lesson classroom illustration''))
                            (JArr (tools (field [] ''includeWebSearch''))))
                         (Inr leaf_response),
               FetchCall (searchParams (JStr ''leaf cells'') (JNum 2))
                         (Inr \<lparr> ok = True, json = Inr leaf_payload \<rparr>),
               ModelCall (continuation (JStr ''resp_0'') (JArr (tools (field [] ''includeWebSearch'')))
                            [tool_output leaf_scenario_env (JStr ''call_1'') images])
                         (Inr lesson_response)]))
   \<and> (\<exists>citations.
         ai_lesson plain_env [] None
           = (Completed (JStr ''# Leaf cells'') citations,
              [ModelCall (first_request systemPrompt
                            (userPrompt [] (contextFromFiles plain_env None)
                               (JStr ''lesson classroom illustration''))
                            (JArr (tools (field [] ''includeWebSearch''))))
                         (Inr lesson_response)]))"
proof -
  let ?resolved = "JStr ''lesson classroom illustration''"
  let ?ts = "JArr (tools (field [] ''includeWebSearch''))"
  let ?request0 = "first_request systemPrompt
                     (userPrompt [] (contextFromFiles leaf_scenario_env None) ?resolved) ?ts"
  let ?request0' = "first_request systemPrompt
                     (userPrompt [] (contextFromFiles plain_env None) ?resolved) ?ts"
  let ?reply = "\<lparr> ok = True, json = Inr leaf_payload \<rparr>"
  have conf: "configured leaf_scenario_env" "configured plain_env"
    by (simp_all add: leaf_scenario_env_def plain_env_def)
  have q: "resolvedImageQuery [] = Inr ?resolved"
    by (simp add: resolvedImageQuery_def field_def opt_trim_def js_or_def)
  have first: "responses_create leaf_scenario_env [] ?request0 = Inr leaf_response"
    "responses_create plain_env [] ?request0' = Inr lesson_response"
    by (simp_all add: leaf_scenario_env_def plain_env_def)
  have c0: "collectToolCalls leaf_response = Inr [leaf_call]"
    by (simp add: collectToolCalls_def leaf_response_def leaf_call_def opt_prop_def js_or_def
          is_tool_call_def get_prop_def bind_e_def)
  have c1: "collectToolCalls lesson_response = Inr []" "\<not> nullish lesson_response"
    by (simp_all add: collectToolCalls_def lesson_response_def opt_prop_def js_or_def
          is_tool_call_def get_prop_def bind_e_def)
  have r: "recognized leaf_call"
    by (simp add: recognized_def leaf_call_def get_prop_def)
  have a: "call_arguments leaf_scenario_env ?resolved leaf_call
             = JObj [(''query'', JStr ''leaf cells''), (''count'', JNum 2)]"
    by (simp add: call_arguments_def leaf_call_def get_prop_def leaf_scenario_env_def)
  have f: "fetch leaf_scenario_env [ModelCall ?request0 (Inr leaf_response)]
             (searchParams (JStr ''leaf cells'') (JNum 2)) = Inr ?reply"
    by (simp add: leaf_scenario_env_def)
  obtain images where s: "search_result (Inr ?reply) = Inr images"
    by (simp add: search_result_def leaf_payload_def images_of_payload_def opt_prop_def get_prop_def
          get_index_def bind_e_def has_imageinfo_def image_result_def)
  have ids: "read_prop leaf_response ''id'' = JStr ''resp_0''"
    "read_prop leaf_call ''call_id'' = JStr ''call_1''"
    "read_prop lesson_response ''output_text'' = JStr ''# Leaf cells''"
    by (simp_all add: leaf_response_def leaf_call_def lesson_response_def)
  have second: "responses_create leaf_scenario_env
         [ModelCall ?request0 (Inr leaf_response),
          FetchCall (searchParams (JStr ''leaf cells'') (JNum 2)) (Inr ?reply)]
         (continuation (read_prop leaf_response ''id'') ?ts
            [tool_output leaf_scenario_env (read_prop leaf_call ''call_id'') images])
       = Inr lesson_response"
    by (simp add: leaf_scenario_env_def)
  note t1 = image_search_scenario [OF conf(1) q first(1)]
  note t2 = image_search_scenario [OF conf(2) q first(2)]
  from conjunct1 [OF conjunct2 [OF t1]] c0 r a f s second c1
  have "\<exists>citations.
         ai_lesson leaf_scenario_env [] None
           = (Completed (js_or (read_prop lesson_response ''output_text'') (JStr [])) citations,
              [ModelCall ?request0 (Inr leaf_response),
               FetchCall (searchParams (JStr ''leaf cells'') (JNum 2)) (Inr ?reply),
               ModelCall (continuation (read_prop leaf_response ''id'') ?ts
                            [tool_output leaf_scenario_env (read_prop leaf_call ''call_id'') images])
                         (Inr lesson_response)])"
    by blast
  then have one: "\<exists>citations images.
         ai_lesson leaf_scenario_env [] None
           = (Completed (JStr ''# Leaf cells'') citations,
              [ModelCall ?request0 (Inr leaf_response),
               FetchCall (searchParams (JStr ''leaf cells'') (JNum 2)) (Inr ?reply),
               ModelCall (continuation (JStr ''resp_0'') ?ts
                            [tool_output leaf_scenario_env (JStr ''call_1'') images])
                         (Inr lesson_response)])"
    unfolding ids by (auto simp: js_or_def)
  from conjunct1 [OF t2] c1
  have "\<exists>citations.
         ai_lesson plain_env [] None
           = (Completed (js_or (read_prop lesson_response ''output_text'') (JStr [])) citations,
              [ModelCall ?request0' (Inr lesson_response)])"
    by blast
  then have none: "\<exists>citations.
         ai_lesson plain_env [] None
           = (Completed (JStr ''# Leaf cells'') citations, [ModelCall ?request0' (Inr lesson_response)])"
    unfolding ids by (simp add: js_or_def)
  from conf(1) q c0 r a c1 one none show ?thesis
    by (intro conjI)
qed

end
